theory Spec2Isabelle
  imports Main "HOL-Library.AList" "HOL-Library.Sublist"
begin

section \<open>JavaScript values and strings\<close>

text \<open>
  The values a profile property can hold. Numbers are integers (ports). A string is the
  list of its code units, which the type \<open>char\<close> holds up to 255. \<open>JObject\<close> is an
  object or a function of the runtime, such as the ones every object inherits from
  \<open>Object.prototype\<close>: it is known by its name, it is truthy and equal to itself only,
  and it has none of the properties and methods that are read here. Arrays and object
  literals do not occur as values of the properties read here.
\<close>

datatype jsval = JUndefined | JNull | JBool bool | JNum int | JStr string | JObject string

text \<open>What the language throws: an instance of \<open>Error\<close> carries a message, any other
  thrown value does not.\<close>

datatype error = Error string | TypeError string | Thrown jsval

fun truthy :: "jsval \<Rightarrow> bool" where
  "truthy JUndefined = False"
| "truthy JNull = False"
| "truthy (JBool b) = b"
| "truthy (JNum n) = (n \<noteq> 0)"
| "truthy (JStr s) = (s \<noteq> [])"
| "truthy (JObject n) = True"

text \<open>\<open>s.startsWith(p)\<close>\<close>

fun startsWith :: "string \<Rightarrow> string \<Rightarrow> bool" where
  "startsWith s [] = True"
| "startsWith [] (c # p) = False"
| "startsWith (x # s) (c # p) = (x = c \<and> startsWith s p)"

text \<open>\<open>s.indexOf(sub)\<close>, counting from position \<open>i\<close> of the whole string; \<open>-1\<close> when absent.\<close>

fun indexOf_from :: "string \<Rightarrow> string \<Rightarrow> int \<Rightarrow> int" where
  "indexOf_from [] sub i = (if sub = [] then i else -1)"
| "indexOf_from (x # t) sub i =
     (if startsWith (x # t) sub then i else indexOf_from t sub (i + 1))"

definition indexOf :: "string \<Rightarrow> string \<Rightarrow> int" where
  "indexOf s sub = indexOf_from s sub 0"

text \<open>\<open>s.includes(sub)\<close>\<close>

definition str_includes :: "string \<Rightarrow> string \<Rightarrow> bool" where
  "str_includes s sub = (indexOf s sub \<noteq> -1)"

text \<open>\<open>s.lastIndexOf(sub)\<close>: the greatest position at most \<open>n\<close> where \<open>sub\<close> starts.\<close>

fun lastIndexOf_upto :: "string \<Rightarrow> string \<Rightarrow> nat \<Rightarrow> int" where
  "lastIndexOf_upto s sub 0 = (if startsWith s sub then 0 else -1)"
| "lastIndexOf_upto s sub (Suc n) =
     (if startsWith (drop (Suc n) s) sub then int (Suc n) else lastIndexOf_upto s sub n)"

definition lastIndexOf :: "string \<Rightarrow> string \<Rightarrow> int" where
  "lastIndexOf s sub = lastIndexOf_upto s sub (length s)"

text \<open>\<open>s.slice(0, e)\<close>: a negative end counts from the end of the string.\<close>

definition slice0 :: "string \<Rightarrow> int \<Rightarrow> string" where
  "slice0 s e = (if e < 0 then take (nat (int (length s) + e)) s else take (nat e) s)"

text \<open>\<open>s.substring(a, b)\<close>: both indices are clamped to the string, and swapped when
  the first is the greater. \<open>s.substring(a)\<close> runs to the end.\<close>

definition clamp_index :: "string \<Rightarrow> int \<Rightarrow> nat" where
  "clamp_index s i = (if i < 0 then 0 else min (nat i) (length s))"

definition substring :: "string \<Rightarrow> int \<Rightarrow> int \<Rightarrow> string" where
  "substring s a b =
     (let a' = clamp_index s a; b' = clamp_index s b
      in drop (min a' b') (take (max a' b') s))"

definition substring_from :: "string \<Rightarrow> int \<Rightarrow> string" where
  "substring_from s a = drop (clamp_index s a) s"

text \<open>White space and line terminators among the code units up to 255: tab, line
  feed, vertical tab, form feed, carriage return, space, no-break space.\<close>

definition is_white_space :: "char \<Rightarrow> bool" where
  "is_white_space c =
     (let n = (of_char c :: nat) in (9 \<le> n \<and> n \<le> 13) \<or> n = 32 \<or> n = 160)"

definition trim :: "string \<Rightarrow> string" where
  "trim s = rev (dropWhile is_white_space (rev (dropWhile is_white_space s)))"

section \<open>SharedUtils.checkIfChildPath\<close>

text \<open>
  \<open>path.relative\<close> and \<open>path.isAbsolute\<close> belong to the runtime, not to the
  repository: they are parameters. The function returns the value of the \<open>&&\<close> chain,
  which is the empty string when the relative path is empty.
\<close>

definition checkIfChildPath ::
  "(string \<Rightarrow> string \<Rightarrow> string) \<Rightarrow> (string \<Rightarrow> bool) \<Rightarrow> string \<Rightarrow> string \<Rightarrow> jsval" where
  "checkIfChildPath relative isAbsolute parentPath childPath =
     (let relativePath = relative parentPath childPath
      in if \<not> truthy (JStr relativePath) then JStr relativePath
         else if \<not> truthy (JBool (\<not> startsWith relativePath ''..''))
           then JBool (\<not> startsWith relativePath ''..'')
         else JBool (\<not> isAbsolute relativePath))"

section \<open>Profiles\<close>

text \<open>
  \<open>IProfile\<close> is the object of a profile's properties: a property that is absent reads
  as \<open>undefined\<close>. \<open>IProfileLoaded\<close> is the loaded profile; its \<open>profile\<close> field is
  a reference where the object lives in the cache's store, and the properties themselves
  (or nothing, as the field is optional) where a function only reads it.
\<close>

type_synonym IProfile = "string \<rightharpoonup> jsval"

definition get_prop :: "IProfile \<Rightarrow> string \<Rightarrow> jsval" where
  "get_prop p k = (case p k of None \<Rightarrow> JUndefined | Some v \<Rightarrow> v)"

record 'p IProfileLoaded =
  message :: string
  name :: string
  type :: string
  profile :: 'p
  failNotFound :: bool

type_synonym profile_value = "IProfile option IProfileLoaded"

section \<open>SharedUtils.parseFavorites\<close>

record FavoriteData =
  profileName :: string
  label :: string
  contextValue :: "string option"

text \<open>The text handed to \<open>ZoweLogger.warn\<close>; the localisation call only fills the line in.\<close>

definition invalidFavoriteWarning :: "string \<Rightarrow> string" where
  "invalidFavoriteWarning line =
     ''Failed to parse a saved favorite. Attempted to parse: '' @ line"

text \<open>The callback of \<open>lines.map\<close>: \<open>None\<close> is \<open>null\<close>; the second component is
  the warnings the call logs.\<close>

definition parseFavorite :: "string \<Rightarrow> FavoriteData option \<times> string list" where
  "parseFavorite line =
     (let closingSquareBracket = indexOf line '']''
      in if \<not> startsWith line ''['' \<or> closingSquareBracket = -1
         then (None, [invalidFavoriteWarning line])
         else
           let profileName = substring line 1 closingSquareBracket;
               remainderOfLine = trim (substring_from line (closingSquareBracket + 2))
           in if length remainderOfLine = 0
              then (None, [invalidFavoriteWarning line])
              else
                let openingCurlyBrace = indexOf remainderOfLine ''{''
                in (Some \<lparr> profileName = profileName,
                           label = trim (substring remainderOfLine 0 openingCurlyBrace),
                           contextValue =
                             (if openingCurlyBrace > 0
                              then Some (substring remainderOfLine (openingCurlyBrace + 1)
                                           (indexOf remainderOfLine ''}''))
                              else None) \<rparr>,
                    []))"

text \<open>\<open>lines.map(...).filter(Boolean)\<close>: the entries that are not \<open>null\<close>, and the
  warnings in the order the lines were read.\<close>

definition parseFavorites :: "string list \<Rightarrow> FavoriteData option list \<times> string list" where
  "parseFavorites lines =
     (filter (\<lambda>entry. entry \<noteq> None) (map (\<lambda>line. fst (parseFavorite line)) lines),
      concat (map (\<lambda>line. snd (parseFavorite line)) lines))"

text \<open>The text of a line after its first \<open>]\<close> and the character that follows it,
  trimmed: the local \<open>remainderOfLine\<close>.\<close>

definition remainderOfLine :: "string \<Rightarrow> string" where
  "remainderOfLine line = trim (substring_from line (indexOf line '']'' + 2))"

section \<open>SharedUtils.handleProfileChange\<close>

text \<open>
  A tree provider and its nodes act on the editor's state \<open>'w\<close>. A call either returns
  or throws, and what it did to the state before throwing stays done.
  \<open>setProfileToChoice\<close> is optional on a node.
\<close>

record 'w tree_node =
  node_label :: jsval
  setProfileToChoice :: "(profile_value option \<Rightarrow> 'w \<Rightarrow> (error + unit) \<times> 'w) option"

record 'w tree_provider =
  getChildren :: "'w \<Rightarrow> (error + 'w tree_node list) \<times> 'w"

text \<open>\<open>profile?.name\<close>\<close>

definition opt_name :: "profile_value option \<Rightarrow> jsval" where
  "opt_name prof = (case prof of None \<Rightarrow> JUndefined | Some l \<Rightarrow> JStr (name l))"

text \<open>The body of the \<open>try\<close> block for one provider.\<close>

definition try_update_provider ::
  "'w tree_provider \<Rightarrow> profile_value option \<Rightarrow> 'w \<Rightarrow> (error + unit) \<times> 'w" where
  "try_update_provider provider prof w =
     (case getChildren provider w of
        (Inl err, w1) \<Rightarrow> (Inl err, w1)
      | (Inr children, w1) \<Rightarrow>
          (case find (\<lambda>n. node_label n = opt_name prof) children of
             None \<Rightarrow> (Inr (), w1)
           | Some node \<Rightarrow>
               (case setProfileToChoice node of
                  None \<Rightarrow> (Inr (), w1)
                | Some set_profile \<Rightarrow> set_profile prof w1)))"

text \<open>The \<open>catch\<close> block: the message goes to \<open>ZoweLogger.error\<close> when the thrown value
  is an instance of \<open>Error\<close>.\<close>

fun log_error :: "error \<Rightarrow> string list \<Rightarrow> string list" where
  "log_error (Error m) logged = logged @ [m]"
| "log_error (TypeError m) logged = logged @ [m]"
| "log_error (Thrown v) logged = logged"

text \<open>The loop over the providers. The state is the editor's state and the error log;
  \<open>Inl\<close> would be an error that reaches the caller.\<close>

fun handleProfileChange ::
  "'w tree_provider list \<Rightarrow> profile_value option \<Rightarrow> 'w \<times> string list
     \<Rightarrow> error + ('w \<times> string list)" where
  "handleProfileChange [] prof (w, logged) = Inr (w, logged)"
| "handleProfileChange (provider # rest) prof (w, logged) =
     (case try_update_provider provider prof w of
        (Inl err, w1) \<Rightarrow> Inr (w1, log_error err logged)
      | (Inr u, w1) \<Rightarrow> handleProfileChange rest prof (w1, logged))"

section \<open>ProfilesCache.validateAndParseUrl\<close>

record URL =
  url_protocol :: string
  url_hostname :: string
  url_port :: string

record IValidationUrl =
  valid :: bool
  protocol :: "string option"
  host :: "string option"
  port :: "int option"

text \<open>Modelled from the spec: \<open>imperative.AbstractSession.DEFAULT_HTTPS_PORT\<close>, a constant
  of the external library, which the specification gives as 443.\<close>

definition DEFAULT_HTTPS_PORT :: int where
  "DEFAULT_HTTPS_PORT = 443"

text \<open>
  The \<open>URL\<close> constructor and \<open>Number\<close> belong to the runtime: \<open>new_URL\<close> returns the
  parsed URL or the error it throws, \<open>Number\<close> converts the port text. The second
  component of the result is what \<open>log.debug\<close> received.
\<close>

definition validateAndParseUrl ::
  "(string \<Rightarrow> error + URL) \<Rightarrow> (string \<Rightarrow> int) \<Rightarrow> string \<Rightarrow> IValidationUrl \<times> error list" where
  "validateAndParseUrl new_URL Number newUrl =
     (let validationResult = \<lparr> valid = False, protocol = None, host = None, port = None \<rparr>
      in case new_URL newUrl of
           Inl err \<Rightarrow> (validationResult, [err])
         | Inr url \<Rightarrow>
             (let r1 = (if str_includes newUrl '':443''
                        then validationResult \<lparr> port := Some DEFAULT_HTTPS_PORT \<rparr>
                        else validationResult \<lparr> port := Some (Number (url_port url)) \<rparr>);
                  r2 = r1 \<lparr> protocol := Some (slice0 (url_protocol url) (-1)) \<rparr>;
                  r3 = r2 \<lparr> host := Some (url_hostname url) \<rparr>;
                  r4 = r3 \<lparr> valid := True \<rparr>
              in (r4, [])))"

section \<open>The external configuration library\<close>

text \<open>
  What \<open>ProfilesCache\<close> reads from \<open>imperative\<close>: the attributes of a stored profile,
  the merged arguments, and the team configuration. The library is not part of the
  repository: its functions are the fields of a record that every operation takes as a
  parameter, and stand for the library's answers after \<open>readProfilesFromDisk\<close>.
\<close>

record IProfAttrs =
  profName :: string
  profType :: string
  isDefaultProfile :: bool
  osLoc :: "string list option"

record IProfArgAttrs =
  argName :: string
  argValue :: jsval

record IProfMergedArg =
  knownArgs :: "IProfArgAttrs list"
  missingArgs :: "IProfArgAttrs list"

record ProfileInfo =
  TOKEN_TYPE_APIML :: string
  getAllProfiles :: "string \<Rightarrow> IProfAttrs list"
  mergeArgsForProfile :: "IProfAttrs \<Rightarrow> bool \<Rightarrow> IProfMergedArg"
  mpi_getDefaultProfile :: "string \<Rightarrow> IProfAttrs option"
  securePropsForProfile :: "string \<Rightarrow> string list"
  secureFields :: "string list"
  getProfilePathFromName :: "string \<Rightarrow> string"
  profiles_get :: "string \<Rightarrow> IProfile"

section \<open>ProfilesCache: functions that only read\<close>

definition ebind :: "error + 'a \<Rightarrow> ('a \<Rightarrow> error + 'b) \<Rightarrow> error + 'b" where
  "ebind m f = (case m of Inl e \<Rightarrow> Inl e | Inr v \<Rightarrow> f v)"

definition getProfileLoaded :: "string \<Rightarrow> string \<Rightarrow> 'p \<Rightarrow> 'p IProfileLoaded" where
  "getProfileLoaded pName pType prof =
     \<lparr> message = [], name = pName, type = pType, profile = prof,
       failNotFound = False \<rparr>"

text \<open>
  \<open>profile[k] = v\<close> on an object made by the literal \<open>{}\<close> and filled by such
  assignments only. The object is given with a flag that tells whether it still inherits
  from \<open>Object.prototype\<close>, as it does when made. While it does, the name \<open>__proto__\<close>
  is an accessor that it inherits: the assignment calls the setter, which makes \<open>v\<close> the
  prototype when \<open>v\<close> is \<open>null\<close> or an object and does nothing otherwise, and the object
  gets no property of its own. After \<open>null\<close> the object inherits nothing and the name is
  a property like the others; a \<open>JObject\<close> inherits from \<open>Object.prototype\<close> itself and
  passes the accessor on.
\<close>

definition set_property :: "IProfile \<times> bool \<Rightarrow> string \<Rightarrow> jsval \<Rightarrow> IProfile \<times> bool" where
  "set_property obj k v =
     (if k = ''__proto__'' \<and> snd obj then (fst obj, v \<noteq> JNull)
      else ((fst obj)(k \<mapsto> v), snd obj))"

text \<open>\<open>profile[arg.argName] = arg.argValue\<close> for each known argument, in order; the result
  is the object, of which the cache reads the properties of its own.\<close>

definition getMergedAttrs :: "ProfileInfo \<Rightarrow> IProfAttrs option \<Rightarrow> IProfile" where
  "getMergedAttrs mProfileInfo profAttrs =
     (case profAttrs of
        None \<Rightarrow> Map.empty
      | Some attrs \<Rightarrow>
          fst (foldl (\<lambda>obj arg. set_property obj (argName arg) (argValue arg))
                 (Map.empty, True)
                 (knownArgs (mergeArgsForProfile mProfileInfo attrs True))))"

text \<open>\<open>x?.profile?.k\<close>\<close>

definition opt_profile_opt :: "profile_value option \<Rightarrow> string \<Rightarrow> jsval" where
  "opt_profile_opt x k =
     (case x of
        None \<Rightarrow> JUndefined
      | Some l \<Rightarrow> (case profile l of None \<Rightarrow> JUndefined | Some p \<Rightarrow> get_prop p k))"

text \<open>\<open>x?.profile.k\<close>: reading a property of a missing \<open>profile\<close> throws.\<close>

definition opt_profile :: "profile_value option \<Rightarrow> string \<Rightarrow> error + jsval" where
  "opt_profile x k =
     (case x of
        None \<Rightarrow> Inr JUndefined
      | Some l \<Rightarrow>
          (case profile l of
             None \<Rightarrow> Inl (TypeError ''Cannot read properties of undefined'')
           | Some p \<Rightarrow> Inr (get_prop p k)))"

text \<open>\<open>v?.startsWith(p)\<close>: \<open>undefined\<close> for a nullish value, a type error for a value
  that is not a string.\<close>

fun opt_startsWith :: "jsval \<Rightarrow> string \<Rightarrow> error + jsval" where
  "opt_startsWith JUndefined p = Inr JUndefined"
| "opt_startsWith JNull p = Inr JUndefined"
| "opt_startsWith (JStr s) p = Inr (JBool (startsWith s p))"
| "opt_startsWith v p = Inl (TypeError ''startsWith is not a function'')"

text \<open>The fourth operand of the chain:
  \<open>base.host !== profile.host || base.port !== profile.port || (user && password)\<close>.\<close>

definition differs_or_has_credentials ::
  "profile_value option \<Rightarrow> profile_value option \<Rightarrow> error + jsval" where
  "differs_or_has_credentials prof baseProfile =
     ebind (opt_profile baseProfile ''host'') (\<lambda>baseHost.
     ebind (opt_profile prof ''host'') (\<lambda>profHost.
       if baseHost \<noteq> profHost then Inr (JBool True)
       else
         ebind (opt_profile baseProfile ''port'') (\<lambda>basePort.
         ebind (opt_profile prof ''port'') (\<lambda>profPort.
           if basePort \<noteq> profPort then Inr (JBool True)
           else
             ebind (opt_profile prof ''user'') (\<lambda>user.
               if truthy user then opt_profile prof ''password'' else Inr user)))))"

text \<open>The \<open>&&\<close> chain returns its first falsy operand, or the last one.\<close>

definition shouldRemoveTokenFromProfile ::
  "string \<Rightarrow> profile_value option \<Rightarrow> profile_value option \<Rightarrow> error + jsval" where
  "shouldRemoveTokenFromProfile apiml prof baseProfile =
     (let baseHostOrPort =
            (if truthy (opt_profile_opt baseProfile ''host'')
             then opt_profile_opt baseProfile ''host''
             else opt_profile_opt baseProfile ''port'')
      in if \<not> truthy baseHostOrPort then Inr baseHostOrPort
         else if \<not> truthy (opt_profile_opt prof ''host'')
           then Inr (opt_profile_opt prof ''host'')
         else if \<not> truthy (opt_profile_opt prof ''port'')
           then Inr (opt_profile_opt prof ''port'')
         else
           ebind (differs_or_has_credentials prof baseProfile) (\<lambda>d.
             if \<not> truthy d then Inr d
             else ebind (opt_profile prof ''tokenType'') (\<lambda>tokenType.
                    opt_startsWith tokenType apiml)))"

section \<open>The cache and its store\<close>

text \<open>
  Loaded profiles and their property objects are shared: \<open>allProfiles\<close>,
  \<open>profilesByType\<close> and \<open>defaultProfileByType\<close> hold references to the same objects,
  and \<open>Object.assign\<close> copies the reference of the property object, not the object. So
  the cache has a store for each kind of object; a reference is an index into it and a
  new object is appended. The two maps keep their keys in insertion order, as a
  \<open>Map\<close> does.
\<close>

type_synonym addr = nat

record IValidationProfile =
  validation_status :: string
  validation_name :: string

record ProfilesCache =
  loaded_store :: "addr IProfileLoaded list"
  profile_store :: "IProfile list"
  allProfiles :: "addr list"
  allTypes :: "string list"
  allExternalTypes :: "string list"
  profilesByType :: "(string \<times> addr list) list"
  defaultProfileByType :: "(string \<times> addr) list"
  profilesForValidation :: "IValidationProfile list"

text \<open>The cache as the constructor leaves it.\<close>

definition new_ProfilesCache :: ProfilesCache where
  "new_ProfilesCache =
     \<lparr> loaded_store = [], profile_store = [], allProfiles = [], allTypes = [],
       allExternalTypes = [], profilesByType = [], defaultProfileByType = [],
       profilesForValidation = [] \<rparr>"

definition loaded :: "ProfilesCache \<Rightarrow> addr \<Rightarrow> addr IProfileLoaded" where
  "loaded c a = loaded_store c ! a"

text \<open>The property object of the loaded profile at \<open>a\<close>.\<close>

definition props_of :: "ProfilesCache \<Rightarrow> addr \<Rightarrow> IProfile" where
  "props_of c a = profile_store c ! profile (loaded c a)"

text \<open>The loaded profile at \<open>a\<close> as a value, its property object read from the store.\<close>

definition deref :: "ProfilesCache \<Rightarrow> addr \<Rightarrow> profile_value" where
  "deref c a =
     \<lparr> message = message (loaded c a), name = name (loaded c a), type = type (loaded c a),
       profile = Some (props_of c a), failNotFound = failNotFound (loaded c a) \<rparr>"

definition alloc_profile :: "IProfile \<Rightarrow> ProfilesCache \<Rightarrow> addr \<times> ProfilesCache" where
  "alloc_profile p c =
     (length (profile_store c), c \<lparr> profile_store := profile_store c @ [p] \<rparr>)"

definition alloc_loaded ::
  "addr IProfileLoaded \<Rightarrow> ProfilesCache \<Rightarrow> addr \<times> ProfilesCache" where
  "alloc_loaded l c =
     (length (loaded_store c), c \<lparr> loaded_store := loaded_store c @ [l] \<rparr>)"

text \<open>\<open>profile.profile[k] = v\<close> for the loaded profile at \<open>a\<close>.\<close>

definition set_props :: "addr \<Rightarrow> IProfile \<Rightarrow> ProfilesCache \<Rightarrow> ProfilesCache" where
  "set_props a p c =
     c \<lparr> profile_store := (profile_store c)[profile (loaded c a) := p] \<rparr>"

section \<open>ProfilesCache.loadNamedProfile and getDefaultProfile\<close>

text \<open>\<open>!type\<close> holds for a type that is not given and for the empty string. The result
  is the reference of the profile found, or \<open>undefined\<close>.\<close>

definition not_type :: "string option \<Rightarrow> bool" where
  "not_type ty = (case ty of None \<Rightarrow> True | Some t \<Rightarrow> \<not> truthy (JStr t))"

definition loadNamedProfile ::
  "ProfilesCache \<Rightarrow> string \<Rightarrow> string option \<Rightarrow> bool \<Rightarrow> error + addr option" where
  "loadNamedProfile c nm ty optional =
     (case find (\<lambda>a. name (loaded c a) = nm \<and> (not_type ty \<or> Some (type (loaded c a)) = ty))
             (allProfiles c) of
        Some a \<Rightarrow> Inr (Some a)
      | None \<Rightarrow>
          if \<not> optional
          then Inl (Error (''Zowe Explorer Profiles Cache error: Could not find profile named: ''
                             @ nm @ ''.''))
          else Inr None)"

text \<open>The parameter defaults to \<open>zosmf\<close> when no argument is passed.\<close>

definition getDefaultProfile :: "ProfilesCache \<Rightarrow> string option \<Rightarrow> addr option" where
  "getDefaultProfile c ty =
     map_of (defaultProfileByType c) (case ty of None \<Rightarrow> ''zosmf'' | Some t \<Rightarrow> t)"

section \<open>ProfilesCache.checkForEnvVarAndUpdate\<close>

definition is_word_char :: "char \<Rightarrow> bool" where
  "is_word_char c =
     (let n = (of_char c :: nat)
      in (48 \<le> n \<and> n \<le> 57) \<or> (65 \<le> n \<and> n \<le> 90) \<or> n = 95 \<or> (97 \<le> n \<and> n \<le> 122))"

text \<open>The capture of \<open>/^\$(\w+)$/\<close>, when the text matches.\<close>

definition envVarName :: "string \<Rightarrow> string option" where
  "envVarName s =
     (case s of
        [] \<Rightarrow> None
      | c # rest \<Rightarrow>
          if c = CHR ''$'' \<and> rest \<noteq> [] \<and> list_all is_word_char rest then Some rest else None)"

text \<open>
  \<open>process.env[name]\<close>. The environment is the map of its variables, which are the
  properties of \<open>process.env\<close> itself and hold strings. A name that is no variable is
  looked up in \<open>Object.prototype\<close>, from which \<open>process.env\<close> inherits: its properties
  are functions, and \<open>__proto__\<close> reads as the prototype itself.
\<close>

definition Object_prototype :: "string list" where
  "Object_prototype =
     [''constructor'', ''__defineGetter__'', ''__defineSetter__'', ''hasOwnProperty'',
      ''__lookupGetter__'', ''__lookupSetter__'', ''isPrototypeOf'', ''propertyIsEnumerable'',
      ''toString'', ''valueOf'', ''__proto__'', ''toLocaleString'']"

definition process_env :: "(string \<rightharpoonup> string) \<Rightarrow> string \<Rightarrow> jsval" where
  "process_env env var =
     (case env var of
        Some val \<Rightarrow> JStr val
      | None \<Rightarrow>
          if var \<in> set Object_prototype then JObject (''Object.prototype.'' @ var)
          else JUndefined)"

text \<open>What one of the two blocks of the loop body does with the value of a property:
  it passes on, leaves the iteration (\<open>continue\<close>), or assigns what \<open>process.env\<close>
  holds under the name.\<close>

datatype env_step = Pass | Continue | Assign jsval

definition resolve_env :: "(string \<rightharpoonup> string) \<Rightarrow> jsval \<Rightarrow> error + env_step" where
  "resolve_env env v =
     ebind (opt_startsWith v ''$'') (\<lambda>starts.
       if truthy starts then
         (case v of
            JStr s \<Rightarrow>
              (case envVarName s of
                 None \<Rightarrow> Inr Continue
               | Some var \<Rightarrow>
                   if \<not> truthy (process_env env var) then Inr Continue
                   else Inr (Assign (process_env env var)))
          | _ \<Rightarrow> Inr Pass)
       else Inr Pass)"

definition update_from_env :: "(string \<rightharpoonup> string) \<Rightarrow> IProfile \<Rightarrow> error + IProfile" where
  "update_from_env env p =
     ebind (resolve_env env (get_prop p ''user'')) (\<lambda>step.
       case step of
         Continue \<Rightarrow> Inr p
       | _ \<Rightarrow>
           (let p1 = (case step of Assign val \<Rightarrow> p(''user'' \<mapsto> val) | _ \<Rightarrow> p)
            in ebind (resolve_env env (get_prop p1 ''password'')) (\<lambda>step2.
                 case step2 of
                   Assign val \<Rightarrow> Inr (p1(''password'' \<mapsto> val))
                 | _ \<Rightarrow> Inr p1)))"

fun env_update_all ::
  "(string \<rightharpoonup> string) \<Rightarrow> addr list \<Rightarrow> ProfilesCache \<Rightarrow> error + ProfilesCache" where
  "env_update_all env [] c = Inr c"
| "env_update_all env (a # as) c =
     (case update_from_env env (props_of c a) of
        Inl e \<Rightarrow> Inl e
      | Inr p \<Rightarrow> env_update_all env as (set_props a p c))"

definition checkForEnvVarAndUpdate ::
  "(string \<rightharpoonup> string) \<Rightarrow> ProfilesCache \<Rightarrow> error + ProfilesCache" where
  "checkForEnvVarAndUpdate env c = env_update_all env (allProfiles c) c"

text \<open>\<open>getProfileInfo\<close>: the library object is the parameter of every operation; what
  the call does to the cache is the update from the environment.\<close>

definition getProfileInfo ::
  "(string \<rightharpoonup> string) \<Rightarrow> ProfilesCache \<Rightarrow> error + ProfilesCache" where
  "getProfileInfo env c = checkForEnvVarAndUpdate env c"

section \<open>ProfilesCache.fetchBaseProfile\<close>

lemma indexOf_from_empty: "sub \<noteq> [] \<Longrightarrow> indexOf_from [] sub i = -1"
  by simp

lemma lastIndexOf_upto_range:
  "lastIndexOf_upto s sub n = -1 \<or>
   (0 \<le> lastIndexOf_upto s sub n \<and> lastIndexOf_upto s sub n \<le> int n \<and>
    startsWith (drop (nat (lastIndexOf_upto s sub n)) s) sub)"
proof (induction n)
  case 0
  then show ?case by simp
next
  case (Suc n)
  have "nat (1 + int n) = Suc n" by simp
  with Suc show ?case by auto
qed

lemma startsWith_nonempty: "startsWith s (c # p) \<Longrightarrow> s \<noteq> []"
  by (cases s) auto

lemma slice0_lastIndexOf_shorter:
  assumes "s \<noteq> []"
  shows "length (slice0 s (lastIndexOf s [c])) < length s"
proof -
  let ?r = "lastIndexOf_upto s [c] (length s)"
  from lastIndexOf_upto_range [of s "[c]" "length s"]
  consider "?r = -1" | "0 \<le> ?r" "startsWith (drop (nat ?r) s) [c]" by blast
  then show ?thesis
  proof cases
    case 1
    from assms have "nat (int (length s) - 1) < length s" by (cases s) auto
    with 1 show ?thesis by (simp add: slice0_def lastIndexOf_def)
  next
    case 2
    from 2(2) have "drop (nat ?r) s \<noteq> []" by (rule startsWith_nonempty)
    then have "nat ?r < length s" by simp
    with 2(1) show ?thesis by (simp add: slice0_def lastIndexOf_def)
  qed
qed

lemma str_includes_nonempty: "str_includes s (c # p) \<Longrightarrow> s \<noteq> []"
  by (auto simp: str_includes_def indexOf_def)

text \<open>The \<open>while\<close> loop of \<open>getParentProfileForToken\<close>: \<open>tempProfile\<close> loses its last
  segment at each turn; the loop is left at the first segment path whose
  \<open>tokenValue\<close> is among the secure fields.\<close>

function parent_loop :: "ProfileInfo \<Rightarrow> string \<Rightarrow> string \<Rightarrow> string" where
  "parent_loop config tempProfile parentProfile =
     (if str_includes tempProfile ''.''
      then
        if getProfilePathFromName config (slice0 tempProfile (lastIndexOf tempProfile ''.''))
             @ ''.properties.tokenValue'' \<in> set (secureFields config)
        then slice0 tempProfile (lastIndexOf tempProfile ''.'')
        else parent_loop config (slice0 tempProfile (lastIndexOf tempProfile ''.''))
               parentProfile
      else parentProfile)"
  by pat_completeness auto
termination
  by (relation "measure (\<lambda>(config, tempProfile, parentProfile). length tempProfile)")
     (auto intro!: slice0_lastIndexOf_shorter dest: str_includes_nonempty)

declare parent_loop.simps [simp del]

definition getParentProfileForToken :: "string \<Rightarrow> ProfileInfo \<Rightarrow> string" where
  "getParentProfileForToken pName config =
     parent_loop config pName (slice0 pName (lastIndexOf pName ''.''))"

text \<open>\<open>profileName?.includes(".")\<close>\<close>

definition opt_includes :: "string option \<Rightarrow> string \<Rightarrow> bool" where
  "opt_includes s sub = (case s of None \<Rightarrow> False | Some t \<Rightarrow> str_includes t sub)"

text \<open>The value \<open>fetchBaseProfile\<close> returns once \<open>getProfileInfo\<close> has answered.\<close>

definition base_profile_for :: "ProfileInfo \<Rightarrow> string option \<Rightarrow> profile_value option" where
  "base_profile_for mProfileInfo pName =
     (let baseProfileAttrs = mpi_getDefaultProfile mProfileInfo ''base''
      in if opt_includes pName ''.'' \<and>
            (case baseProfileAttrs of
               None \<Rightarrow> True
             | Some attrs \<Rightarrow>
                 ''tokenValue'' \<notin> set (securePropsForProfile mProfileInfo (profName attrs)))
         then
           (let parentProfile = getParentProfileForToken (the pName) mProfileInfo
            in Some (getProfileLoaded parentProfile ''base''
                       (Some (profiles_get mProfileInfo parentProfile))))
         else
           (case baseProfileAttrs of
              None \<Rightarrow> None
            | Some attrs \<Rightarrow>
                Some (getProfileLoaded (profName attrs) (profType attrs)
                        (Some (getMergedAttrs mProfileInfo (Some attrs))))))"

definition fetchBaseProfile ::
  "ProfileInfo \<Rightarrow> (string \<rightharpoonup> string) \<Rightarrow> ProfilesCache \<Rightarrow> string option
     \<Rightarrow> error + (profile_value option \<times> ProfilesCache)" where
  "fetchBaseProfile mProfileInfo env c pName =
     ebind (getProfileInfo env c) (\<lambda>c1. Inr (base_profile_for mProfileInfo pName, c1))"

section \<open>ProfilesCache.refresh\<close>

definition getAllProfileTypes :: "ProfilesCache \<Rightarrow> string list \<Rightarrow> string list" where
  "getAllProfileTypes c registeredTypes =
     registeredTypes @
     filter (\<lambda>exType. list_all (\<lambda>ty. ty \<noteq> exType) registeredTypes) (allExternalTypes c)"

text \<open>A \<open>Set\<close> keeps its elements in insertion order, each once.\<close>

definition set_add :: "'a \<Rightarrow> 'a list \<Rightarrow> 'a list" where
  "set_add x xs = (if x \<in> set xs then xs else xs @ [x])"

definition new_Set :: "'a list \<Rightarrow> 'a list" where
  "new_Set xs = foldl (\<lambda>s x. set_add x s) [] xs"

text \<open>\<open>temp.profLoc.osLoc?.length > 0\<close>\<close>

definition has_osLoc :: "IProfAttrs \<Rightarrow> bool" where
  "has_osLoc temp = (case osLoc temp of None \<Rightarrow> False | Some l \<Rightarrow> length l > 0)"

text \<open>
  Steps 2 and 3 for one stored profile: the merged properties and the loaded profile
  \<open>profileFix\<close> are new objects; \<open>profileFix\<close> becomes the default of the type when the
  library marks the profile so; a profile of that name and type already in
  \<open>allProfiles\<close> is overwritten with the fields of \<open>profileFix\<close> and kept, otherwise
  \<open>profileFix\<close> is. The result is the reference pushed to \<open>tmpAllProfiles\<close>.
\<close>

definition refresh_profile ::
  "ProfileInfo \<Rightarrow> string \<Rightarrow> IProfAttrs \<Rightarrow> ProfilesCache \<Rightarrow> addr \<times> ProfilesCache" where
  "refresh_profile mProfileInfo ty prof c =
     (let profAttr = getMergedAttrs mProfileInfo (Some prof);
          (pa, c1) = alloc_profile profAttr c;
          (profileFix, c2) =
            alloc_loaded (getProfileLoaded (profName prof) (profType prof) pa) c1;
          c3 = (if isDefaultProfile prof
                then c2 \<lparr> defaultProfileByType :=
                            AList.update ty profileFix (defaultProfileByType c2) \<rparr>
                else c2)
      in case find (\<lambda>tmpProf. name (loaded c3 tmpProf) = profName prof \<and>
                               type (loaded c3 tmpProf) = profType prof) (allProfiles c3) of
           Some existingProfile \<Rightarrow>
             (existingProfile,
              c3 \<lparr> loaded_store := (loaded_store c3)[existingProfile := loaded c3 profileFix] \<rparr>)
         | None \<Rightarrow> (profileFix, c3))"

fun refresh_profiles ::
  "ProfileInfo \<Rightarrow> string \<Rightarrow> IProfAttrs list \<Rightarrow> ProfilesCache \<Rightarrow> addr list \<times> ProfilesCache" where
  "refresh_profiles mProfileInfo ty [] c = ([], c)"
| "refresh_profiles mProfileInfo ty (prof # rest) c =
     (let (a, c1) = refresh_profile mProfileInfo ty prof c;
          (as, c2) = refresh_profiles mProfileInfo ty rest c1
      in (a # as, c2))"

text \<open>The loop over the types; the last argument is the local \<open>allProfiles\<close>.\<close>

fun refresh_types ::
  "ProfileInfo \<Rightarrow> string list \<Rightarrow> ProfilesCache \<Rightarrow> addr list \<Rightarrow> addr list \<times> ProfilesCache" where
  "refresh_types mProfileInfo [] c acc = (acc, c)"
| "refresh_types mProfileInfo (ty # rest) c acc =
     (let profilesForType = filter has_osLoc (getAllProfiles mProfileInfo ty)
      in if length profilesForType > 0
         then
           (let (tmpAllProfiles, c1) = refresh_profiles mProfileInfo ty profilesForType c
            in refresh_types mProfileInfo rest
                 (c1 \<lparr> profilesByType := AList.update ty tmpAllProfiles (profilesByType c1) \<rparr>)
                 (acc @ tmpAllProfiles))
         else refresh_types mProfileInfo rest c acc)"

text \<open>The types that have an entry in \<open>profilesByType\<close> and no profile in
  \<open>allProfiles\<close> lose their entries in both maps.\<close>

definition old_types :: "ProfilesCache \<Rightarrow> string list" where
  "old_types c =
     filter (\<lambda>ty. \<not> list_ex (\<lambda>prof. type (loaded c prof) = ty) (allProfiles c))
       (map fst (profilesByType c))"

definition delete_type :: "ProfilesCache \<Rightarrow> string \<Rightarrow> ProfilesCache" where
  "delete_type c oldType =
     c \<lparr> profilesByType := AList.delete oldType (profilesByType c),
         defaultProfileByType := AList.delete oldType (defaultProfileByType c) \<rparr>"

definition delete_old_types :: "ProfilesCache \<Rightarrow> ProfilesCache" where
  "delete_old_types c = foldl delete_type c (old_types c)"

text \<open>\<open>refresh\<close> up to the point where the token check starts.\<close>

definition refresh_load ::
  "ProfileInfo \<Rightarrow> (string \<rightharpoonup> string) \<Rightarrow> string list option \<Rightarrow> ProfilesCache
     \<Rightarrow> error + ProfilesCache" where
  "refresh_load mProfileInfo env registered c =
     ebind (getProfileInfo env c) (\<lambda>c0.
       let types = set_add ''base'' (set_add ''ssh''
                     (new_Set (getAllProfileTypes c0
                        (case registered of None \<Rightarrow> [] | Some ts \<Rightarrow> ts))));
           (allProfs, c1) = refresh_types mProfileInfo types c0 [];
           c2 = c1 \<lparr> allProfiles := allProfs, allTypes := types \<rparr>
       in Inr (delete_old_types c2))"

definition clear_token :: "IProfile \<Rightarrow> IProfile" where
  "clear_token p = p(''tokenValue'' \<mapsto> JUndefined, ''tokenType'' \<mapsto> JUndefined)"

definition checkMergingConfigSingleProfile ::
  "ProfileInfo \<Rightarrow> addr \<Rightarrow> ProfilesCache \<Rightarrow> error + ProfilesCache" where
  "checkMergingConfigSingleProfile mProfileInfo a c =
     (let baseProfile = map_option (deref c) (map_of (defaultProfileByType c) ''base'')
      in ebind (shouldRemoveTokenFromProfile (TOKEN_TYPE_APIML mProfileInfo)
                  (Some (deref c a)) baseProfile) (\<lambda>remove.
           if truthy remove then Inr (set_props a (clear_token (props_of c a)) c)
           else Inr c))"

fun check_profiles :: "ProfileInfo \<Rightarrow> addr list \<Rightarrow> ProfilesCache \<Rightarrow> error + ProfilesCache" where
  "check_profiles mProfileInfo [] c = Inr c"
| "check_profiles mProfileInfo (a # as) c =
     ebind (checkMergingConfigSingleProfile mProfileInfo a c) (check_profiles mProfileInfo as)"

fun check_groups ::
  "ProfileInfo \<Rightarrow> addr list list \<Rightarrow> ProfilesCache \<Rightarrow> error + ProfilesCache" where
  "check_groups mProfileInfo [] c = Inr c"
| "check_groups mProfileInfo (profs # rest) c =
     ebind (check_profiles mProfileInfo profs c) (check_groups mProfileInfo rest)"

definition checkMergingConfigAllProfiles ::
  "ProfileInfo \<Rightarrow> ProfilesCache \<Rightarrow> error + ProfilesCache" where
  "checkMergingConfigAllProfiles mProfileInfo c =
     check_groups mProfileInfo (map snd (profilesByType c)) c"

definition refresh ::
  "ProfileInfo \<Rightarrow> (string \<rightharpoonup> string) \<Rightarrow> string list option \<Rightarrow> ProfilesCache
     \<Rightarrow> error + ProfilesCache" where
  "refresh mProfileInfo env registered c =
     ebind (refresh_load mProfileInfo env registered c) (\<lambda>c3.
     ebind (checkMergingConfigAllProfiles mProfileInfo c3) (\<lambda>c4.
     ebind (checkForEnvVarAndUpdate env c4) (\<lambda>c5.
       Inr (c5 \<lparr> profilesForValidation := [] \<rparr>))))"

section \<open>An example configuration\<close>

text \<open>
  A team configuration with a nested \<open>zosmf\<close> profile and a base profile, both with an
  APIML token, on different hosts; the cache after its profiles are loaded and after
  \<open>refresh\<close>; and a configuration whose only profile has no \<open>osLoc\<close>.
\<close>

definition example_zosmf :: IProfAttrs where
  "example_zosmf =
     \<lparr> profName = ''lpar1.zosmf'', profType = ''zosmf'', isDefaultProfile = True,
       osLoc = Some [''/home/user/.zowe/zowe.config.json''] \<rparr>"

definition example_base :: IProfAttrs where
  "example_base =
     \<lparr> profName = ''global_base'', profType = ''base'', isDefaultProfile = True,
       osLoc = Some [''/home/user/.zowe/zowe.config.json''] \<rparr>"

definition example_args :: "string \<Rightarrow> IProfArgAttrs list" where
  "example_args ty =
     (if ty = ''zosmf''
      then [\<lparr> argName = ''host'', argValue = JStr ''lpar1.example.com'' \<rparr>,
            \<lparr> argName = ''port'', argValue = JNum 443 \<rparr>,
            \<lparr> argName = ''tokenType'', argValue = JStr ''apimlAuthenticationToken'' \<rparr>,
            \<lparr> argName = ''tokenValue'', argValue = JStr ''secret'' \<rparr>]
      else [\<lparr> argName = ''host'', argValue = JStr ''apiml.example.com'' \<rparr>,
            \<lparr> argName = ''port'', argValue = JNum 7554 \<rparr>,
            \<lparr> argName = ''tokenType'', argValue = JStr ''apimlAuthenticationToken'' \<rparr>,
            \<lparr> argName = ''tokenValue'', argValue = JStr ''secret'' \<rparr>])"

definition example_info :: ProfileInfo where
  "example_info =
     \<lparr> TOKEN_TYPE_APIML = ''apimlAuthenticationToken'',
       getAllProfiles = (\<lambda>ty. filter (\<lambda>p. profType p = ty) [example_zosmf, example_base]),
       mergeArgsForProfile =
         (\<lambda>attrs getSecureVals. \<lparr> knownArgs = example_args (profType attrs), missingArgs = [] \<rparr>),
       mpi_getDefaultProfile =
         (\<lambda>ty. find (\<lambda>p. profType p = ty \<and> isDefaultProfile p) [example_zosmf, example_base]),
       securePropsForProfile = (\<lambda>n. []),
       secureFields = [''profiles.lpar1.properties.tokenValue''],
       getProfilePathFromName = (\<lambda>n. ''profiles.'' @ n),
       profiles_get = (\<lambda>n. Map.empty) \<rparr>"

definition example_loaded :: ProfilesCache where
  "example_loaded =
     \<lparr> loaded_store = [getProfileLoaded ''lpar1.zosmf'' ''zosmf'' 0,
                       getProfileLoaded ''global_base'' ''base'' 1],
       profile_store = [getMergedAttrs example_info (Some example_zosmf),
                        getMergedAttrs example_info (Some example_base)],
       allProfiles = [0, 1], allTypes = [''zosmf'', ''ssh'', ''base''],
       allExternalTypes = [],
       profilesByType = [(''zosmf'', [0]), (''base'', [1])],
       defaultProfileByType = [(''zosmf'', 0), (''base'', 1)],
       profilesForValidation = [] \<rparr>"

definition example_refreshed :: ProfilesCache where
  "example_refreshed =
     example_loaded
       \<lparr> profile_store := [clear_token (getMergedAttrs example_info (Some example_zosmf)),
                           getMergedAttrs example_info (Some example_base)] \<rparr>"

definition example_hidden :: IProfAttrs where
  "example_hidden =
     \<lparr> profName = ''lpar1.zosmf'', profType = ''zosmf'', isDefaultProfile = True,
       osLoc = None \<rparr>"

definition example_info_hidden :: ProfileInfo where
  "example_info_hidden =
     example_info \<lparr> getAllProfiles := (\<lambda>ty. filter (\<lambda>p. profType p = ty) [example_hidden]) \<rparr>"

text \<open>A configuration whose profiles have one property, named \<open>__proto__\<close>.\<close>

definition example_info_proto :: ProfileInfo where
  "example_info_proto =
     example_info
       \<lparr> mergeArgsForProfile :=
           (\<lambda>attrs getSecureVals.
              \<lparr> knownArgs = [\<lparr> argName = ''__proto__'', argValue = JStr ''lpar1.example.com'' \<rparr>],
                missingArgs = [] \<rparr>) \<rparr>"








text \<open>
  Tree providers over a state that counts the calls made: one that has no children, one
  that throws an \<open>Error\<close> when asked for its children, and one whose node \<open>zosmf1\<close>
  throws a string when its profile is set.
\<close>

definition example_provider :: "nat tree_provider" where
  "example_provider = \<lparr> getChildren = (\<lambda>w. (Inr [], Suc w)) \<rparr>"

definition example_provider_failing :: "nat tree_provider" where
  "example_provider_failing =
     \<lparr> getChildren = (\<lambda>w. (Inl (Error ''Profile not found''), Suc w)) \<rparr>"

definition example_node :: "nat tree_node" where
  "example_node =
     \<lparr> node_label = JStr ''zosmf1'',
       setProfileToChoice = Some (\<lambda>p w. (Inl (Thrown (JStr ''stop'')), Suc w)) \<rparr>"

definition example_provider_node :: "nat tree_provider" where
  "example_provider_node = \<lparr> getChildren = (\<lambda>w. (Inr [example_node], Suc w)) \<rparr>"

section \<open>Notions of the specification\<close>

text \<open>The match as the specification words it: the name, and the type whenever one is given.\<close>

definition claimed_match :: "ProfilesCache \<Rightarrow> string \<Rightarrow> string option \<Rightarrow> addr \<Rightarrow> bool" where
  "claimed_match c nm ty a =
     (name (loaded c a) = nm \<and> (case ty of None \<Rightarrow> True | Some t \<Rightarrow> type (loaded c a) = t))"

text \<open>The match the code makes: a type that is the empty string counts as not given.\<close>

definition profile_matches :: "ProfilesCache \<Rightarrow> string \<Rightarrow> string option \<Rightarrow> addr \<Rightarrow> bool" where
  "profile_matches c nm ty a =
     (name (loaded c a) = nm \<and> (ty = None \<or> ty = Some [] \<or> ty = Some (type (loaded c a))))"

text \<open>An ancestor prefix of a nested profile name is what stands before one of its
  periods; its token is secure when the path of its \<open>tokenValue\<close> is a secure field.\<close>

definition is_ancestor :: "string \<Rightarrow> string \<Rightarrow> bool" where
  "is_ancestor p nm = prefix (p @ ''.'') nm"

definition secure_token :: "ProfileInfo \<Rightarrow> string \<Rightarrow> bool" where
  "secure_token config p =
     (getProfilePathFromName config p @ ''.properties.tokenValue'' \<in> set (secureFields config))"

text \<open>The providers that return: the state they leave, one after the other, when the
  body of the \<open>try\<close> block completes for each of them, and nothing when one throws.\<close>

fun providers_return ::
  "'w tree_provider list \<Rightarrow> profile_value option \<Rightarrow> 'w \<Rightarrow> 'w option" where
  "providers_return [] prof w = Some w"
| "providers_return (provider # rest) prof w =
     (case try_update_provider provider prof w of
        (Inl err, w1) \<Rightarrow> None
      | (Inr u, w1) \<Rightarrow> providers_return rest prof w1)"

section \<open>Invariants of the cache\<close>

text \<open>One step of the loop over the stored profiles, written out.\<close>

definition fresh_state :: "ProfileInfo \<Rightarrow> string \<Rightarrow> IProfAttrs \<Rightarrow> ProfilesCache \<Rightarrow> ProfilesCache" where
  "fresh_state info ty prof c =
     c \<lparr> profile_store := profile_store c @ [getMergedAttrs info (Some prof)],
         loaded_store := loaded_store c @
           [getProfileLoaded (profName prof) (profType prof) (length (profile_store c))],
         defaultProfileByType :=
           (if isDefaultProfile prof
            then AList.update ty (length (loaded_store c)) (defaultProfileByType c)
            else defaultProfileByType c) \<rparr>"

text \<open>References that point into the two stores.\<close>

definition in_store :: "ProfilesCache \<Rightarrow> addr \<Rightarrow> bool" where
  "in_store c a = (a < length (loaded_store c) \<and> profile (loaded c a) < length (profile_store c))"

definition stored :: "ProfilesCache \<Rightarrow> bool" where
  "stored c = (\<forall>b\<in>set (allProfiles c). b < length (loaded_store c))"

text \<open>What the default of a type is after the loop over its profiles: the loaded
  profile made for the last profile marked as default.\<close>

definition default_for ::
  "ProfileInfo \<Rightarrow> ProfilesCache \<Rightarrow> string \<Rightarrow> IProfAttrs \<Rightarrow> addr \<Rightarrow> bool" where
  "default_for info c ty p la =
     (map_of (defaultProfileByType c) ty = Some la \<and> la < length (loaded_store c) \<and>
      la \<notin> set (allProfiles c) \<and>
      name (loaded c la) = profName p \<and> type (loaded c la) = profType p \<and>
      profile (loaded c la) < length (profile_store c) \<and>
      props_of c la = getMergedAttrs info (Some p))"

text \<open>The library answers a request for a type with profiles of that type.\<close>

definition answers_by_type :: "ProfileInfo \<Rightarrow> bool" where
  "answers_by_type info = (\<forall>ty. \<forall>p\<in>set (getAllProfiles info ty). profType p = ty)"


text \<open>The conditions of the token check, in the words of the specification: the base
  profile has a host or a port, the profile has both, its token type starts with the
  APIML token type, and the hosts differ, the ports differ, or the profile has a user
  and a password.\<close>

definition token_conditions :: "string \<Rightarrow> IProfile option \<Rightarrow> IProfile option \<Rightarrow> bool" where
  "token_conditions apiml prof base =
     (case (prof, base) of
        (Some p, Some b) \<Rightarrow>
          (truthy (get_prop b ''host'') \<or> truthy (get_prop b ''port'')) \<and>
          truthy (get_prop p ''host'') \<and> truthy (get_prop p ''port'') \<and>
          (\<exists>s. get_prop p ''tokenType'' = JStr s \<and> prefix apiml s) \<and>
          (get_prop b ''host'' \<noteq> get_prop p ''host'' \<or>
           get_prop b ''port'' \<noteq> get_prop p ''port'' \<or>
           (truthy (get_prop p ''user'') \<and> truthy (get_prop p ''password'')))
      | _ \<Rightarrow> False)"

text \<open>\<open>x?.profile\<close>\<close>

definition opt_props :: "profile_value option \<Rightarrow> IProfile option" where
  "opt_props x = (case x of None \<Rightarrow> None | Some l \<Rightarrow> profile l)"

text \<open>What the token check may do to a property object, and what the update from the
  environment may do.\<close>

definition token_cleared :: "IProfile \<Rightarrow> IProfile \<Rightarrow> bool" where
  "token_cleared p p' = (p' = p \<or> p' = clear_token p)"

definition env_related :: "IProfile \<Rightarrow> IProfile \<Rightarrow> bool" where
  "env_related p p' =
     ((\<forall>k. k \<noteq> ''user'' \<and> k \<noteq> ''password'' \<longrightarrow> p' k = p k) \<and>
      truthy (get_prop p' ''user'') = truthy (get_prop p ''user'') \<and>
      truthy (get_prop p' ''password'') = truthy (get_prop p ''password''))"

definition base_props :: "ProfilesCache \<Rightarrow> IProfile option" where
  "base_props c = map_option (props_of c) (map_of (defaultProfileByType c) ''base'')"

text \<open>Two caches that differ in the property objects only, object by object as \<open>R\<close>
  allows.\<close>

definition same_but_props ::
  "(IProfile \<Rightarrow> IProfile \<Rightarrow> bool) \<Rightarrow> ProfilesCache \<Rightarrow> ProfilesCache \<Rightarrow> bool" where
  "same_but_props R c c' =
     (loaded_store c' = loaded_store c \<and> allProfiles c' = allProfiles c \<and>
      allTypes c' = allTypes c \<and> allExternalTypes c' = allExternalTypes c \<and>
      profilesByType c' = profilesByType c \<and>
      defaultProfileByType c' = defaultProfileByType c \<and>
      profilesForValidation c' = profilesForValidation c \<and>
      length (profile_store c') = length (profile_store c) \<and>
      (\<forall>i. R (profile_store c ! i) (profile_store c' ! i)))"

text \<open>The types a call of \<open>refresh\<close> goes through: the registered ones, the external
  ones, \<open>ssh\<close> and \<open>base\<close>.\<close>

definition processed_types :: "ProfilesCache \<Rightarrow> string list option \<Rightarrow> string list" where
  "processed_types c registered =
     set_add ''base'' (set_add ''ssh''
       (new_Set (getAllProfileTypes c (case registered of None \<Rightarrow> [] | Some ts \<Rightarrow> ts))))"

section \<open>Properties\<close>

lemma startsWith_prefix: "startsWith s p = prefix p s"
  by (induction s p rule: startsWith.induct) auto

lemma indexOf_from_char:
  "indexOf_from s [c] i =
     (if c \<in> set s then i + int (length (takeWhile (\<lambda>x. x \<noteq> c) s)) else -1)"
  by (induction s arbitrary: i) auto

lemma indexOf_char:
  "indexOf s [c] = (if c \<in> set s then int (length (takeWhile (\<lambda>x. x \<noteq> c) s)) else -1)"
  by (simp add: indexOf_def indexOf_from_char)

lemma indexOf_from_occurs:
  "0 \<le> i \<Longrightarrow> (indexOf_from s sub i \<noteq> -1) = (\<exists>pre post. s = pre @ sub @ post)"
proof (induction s arbitrary: i)
  case Nil
  then show ?case by auto
next
  case (Cons x t)
  show ?case
  proof (cases "prefix sub (x # t)")
    case True
    then obtain post where "x # t = sub @ post" by (auto simp: prefix_def)
    then have "\<exists>pre post. x # t = pre @ sub @ post" by (metis append_Nil)
    with True Cons.prems show ?thesis by (simp add: startsWith_prefix)
  next
    case False
    have "(\<exists>pre post. x # t = pre @ sub @ post) = (\<exists>pre post. t = pre @ sub @ post)"
    proof
      assume "\<exists>pre post. x # t = pre @ sub @ post"
      then obtain pre post where eq: "x # t = pre @ sub @ post" by blast
      with False have "pre \<noteq> []" by (auto simp: prefix_def)
      then obtain pre' where "pre = x # pre'" using eq by (cases pre) auto
      with eq show "\<exists>pre post. t = pre @ sub @ post" by auto
    next
      assume "\<exists>pre post. t = pre @ sub @ post"
      then obtain pre post where "t = pre @ sub @ post" by blast
      then have "x # t = (x # pre) @ sub @ post" by simp
      then show "\<exists>pre post. x # t = pre @ sub @ post" by blast
    qed
    with False Cons.IH [of "i + 1"] Cons.prems show ?thesis
      by (simp add: startsWith_prefix)
  qed
qed

lemma str_includes_iff: "str_includes s sub = (\<exists>pre post. s = pre @ sub @ post)"
  by (simp add: str_includes_def indexOf_def indexOf_from_occurs)

lemma substring_ordered:
  "0 \<le> a \<Longrightarrow> a \<le> b \<Longrightarrow> substring s a b = drop (nat a) (take (nat b) s)"
  by (auto simp: substring_def clamp_index_def Let_def min_def max_def)

lemma substring_from_nonneg: "0 \<le> a \<Longrightarrow> substring_from s a = drop (nat a) s"
  by (auto simp: substring_from_def clamp_index_def min_def)


lemma parseFavorite_dropped_iff:
  "(fst (parseFavorite line) = None) =
     (\<not> prefix ''['' line \<or> CHR '']'' \<notin> set line \<or> remainderOfLine line = [])"
  by (auto simp: parseFavorite_def Let_def startsWith_prefix indexOf_char remainderOfLine_def)

lemma parseFavorite_warning:
  "snd (parseFavorite line) =
     (if fst (parseFavorite line) = None then [invalidFavoriteWarning line] else [])"
  by (auto simp: parseFavorite_def Let_def)

lemma takeWhile_until: "c \<notin> set pre \<Longrightarrow> takeWhile (\<lambda>x. x \<noteq> c) (pre @ c # post) = pre"
  by (induction pre) auto

lemma parseFavorite_form:
  assumes line: "line = ''['' @ prof @ '']'' @ [sep] @ rest"
    and prof: "CHR '']'' \<notin> set prof"
    and rest: "trim rest = lbl @ ''{'' @ ctx @ ''}'' @ tail"
    and lbl: "lbl \<noteq> []" "CHR ''{'' \<notin> set lbl" "CHR ''}'' \<notin> set lbl"
    and ctx: "CHR ''}'' \<notin> set ctx"
  shows "fst (parseFavorite line) =
           Some \<lparr> profileName = prof, label = trim lbl, contextValue = Some ctx \<rparr>"
proof -
  have tw: "takeWhile (\<lambda>x. x \<noteq> CHR '']'') line = CHR ''['' # prof"
    using takeWhile_until [of "CHR '']''" "CHR ''['' # prof" "sep # rest"] prof line by simp
  have closing: "indexOf line '']'' = int (length prof) + 1"
    using line tw by (simp add: indexOf_char)
  have starts: "startsWith line ''[''" using line by simp
  have pn: "substring line 1 (int (length prof) + 1) = prof"
    using line by (simp add: substring_ordered nat_add_distrib)
  have n3: "nat (int (length prof) + 1 + 2) = length (CHR ''['' # prof @ [CHR '']'', sep])"
    by simp
  have "line = (CHR ''['' # prof @ [CHR '']'', sep]) @ rest" using line by simp
  then have "drop (length (CHR ''['' # prof @ [CHR '']'', sep])) line = rest"
    by simp
  then have rem: "trim (substring_from line (int (length prof) + 1 + 2)) = trim rest"
    by (simp only: n3 [symmetric]) (simp add: substring_from_nonneg)
  let ?r = "lbl @ ''{'' @ ctx @ ''}'' @ tail"
  have tw1: "takeWhile (\<lambda>x. x \<noteq> CHR ''{'') ?r = lbl"
    using takeWhile_until [of "CHR ''{''" lbl "ctx @ ''}'' @ tail"] lbl by simp
  have openingBrace: "indexOf ?r ''{'' = int (length lbl)"
    using tw1 by (simp add: indexOf_char)
  have tw2: "takeWhile (\<lambda>x. x \<noteq> CHR ''}'') ?r = lbl @ ''{'' @ ctx"
    using takeWhile_until [of "CHR ''}''" "lbl @ ''{'' @ ctx" tail] lbl ctx by simp
  have closingBrace: "indexOf ?r ''}'' = int (length lbl) + 1 + int (length ctx)"
    using tw2 by (simp add: indexOf_char)
  have lab: "substring ?r 0 (int (length lbl)) = lbl"
    by (simp add: substring_ordered)
  have cv: "substring ?r (int (length lbl) + 1) (int (length lbl) + 1 + int (length ctx)) = ctx"
    by (simp add: substring_ordered nat_add_distrib)
  from lbl have pos: "0 < int (length lbl)" by simp
  show ?thesis
    unfolding parseFavorite_def Let_def closing
    using starts pn rem rest openingBrace closingBrace lab cv pos lbl(1)
    by simp
qed


lemma nat_one_plus_int: "nat (1 + int n) = Suc n"
  by simp

lemma parseFavorite_kept:
  assumes "fst (parseFavorite line) = Some e"
  shows "(\<exists>rest. line = ''['' @ profileName e @ '']'' @ rest) \<and> CHR '']'' \<notin> set (profileName e) \<and>
         (contextValue e = None) =
           (CHR ''{'' \<notin> set (remainderOfLine line) \<or> prefix ''{'' (remainderOfLine line)) \<and>
         (\<forall>v. contextValue e = Some v \<longrightarrow>
            v = substring (remainderOfLine line) (indexOf (remainderOfLine line) ''{'' + 1)
                  (indexOf (remainderOfLine line) ''}''))"
proof -
  from assms have kept: "prefix ''['' line" "CHR '']'' \<in> set line" "remainderOfLine line \<noteq> []"
    using parseFavorite_dropped_iff [of line] by auto
  let ?n = "length (takeWhile (\<lambda>x. x \<noteq> CHR '']'') line)"
  from kept(1) obtain t where t: "line = CHR ''['' # t" by (auto simp: prefix_def)
  with kept(2) have in_t: "CHR '']'' \<in> set t" by simp
  let ?p = "takeWhile (\<lambda>x. x \<noteq> CHR '']'') t"
  have tw: "takeWhile (\<lambda>x. x \<noteq> CHR '']'') line = CHR ''['' # ?p" using t by simp
  have e: "e = \<lparr> profileName = substring line 1 (indexOf line '']''),
                label = trim (substring (remainderOfLine line) 0 (indexOf (remainderOfLine line) ''{'')),
                contextValue =
                  (if indexOf (remainderOfLine line) ''{'' > 0
                   then Some (substring (remainderOfLine line)
                                (indexOf (remainderOfLine line) ''{'' + 1)
                                (indexOf (remainderOfLine line) ''}''))
                   else None) \<rparr>"
    using assms kept
    by (auto simp: parseFavorite_def Let_def remainderOfLine_def startsWith_prefix
        split: if_splits)
  have idx: "indexOf line '']'' = int (Suc (length ?p))"
    using t kept(2) by (simp add: indexOf_char)
  have "substring line 1 (int (Suc (length ?p))) = drop 1 (take (Suc (length ?p)) line)"
    by (subst substring_ordered) (simp_all add: nat_one_plus_int)
  also have "\<dots> = take (length ?p) t" using t by simp
  also have "\<dots> = ?p" by (rule takeWhile_eq_take [symmetric])
  finally have pn: "profileName e = ?p" using e idx by simp
  from in_t have "t = ?p @ dropWhile (\<lambda>x. x \<noteq> CHR '']'') t" by simp
  moreover from in_t have "dropWhile (\<lambda>x. x \<noteq> CHR '']'') t \<noteq> []" by simp
  moreover have "\<And>xs. xs \<noteq> [] \<Longrightarrow> xs = dropWhile (\<lambda>x. x \<noteq> CHR '']'') t \<Longrightarrow> hd xs = CHR '']''"
    using hd_dropWhile [of "\<lambda>x. x \<noteq> CHR '']''" t] by auto
  ultimately obtain rest where "t = ?p @ CHR '']'' # rest"
    by (metis list.collapse)
  with t pn have 1: "\<exists>rest. line = ''['' @ profileName e @ '']'' @ rest" by auto
  have 2: "CHR '']'' \<notin> set (profileName e)"
    using pn by (auto dest: set_takeWhileD)
  have pos: "(0 < indexOf (remainderOfLine line) ''{'') =
          (\<not> (CHR ''{'' \<notin> set (remainderOfLine line) \<or> prefix ''{'' (remainderOfLine line)))"
    by (cases "remainderOfLine line") (auto simp: indexOf_char)
  from e pos have 3: "(contextValue e = None) =
           (CHR ''{'' \<notin> set (remainderOfLine line) \<or> prefix ''{'' (remainderOfLine line))"
    by auto
  from e have 4: "\<forall>v. contextValue e = Some v \<longrightarrow>
            v = substring (remainderOfLine line) (indexOf (remainderOfLine line) ''{'' + 1)
                  (indexOf (remainderOfLine line) ''}'')"
    by (auto split: if_splits)
  from 1 2 3 4 show ?thesis by blast
qed

lemma parseFavorites_kept: "None \<notin> set (fst (parseFavorites lines))"
  by (simp add: parseFavorites_def)

lemma parseFavorites_entries:
  "fst (parseFavorites lines) =
     map (\<lambda>line. fst (parseFavorite line)) (filter (\<lambda>line. fst (parseFavorite line) \<noteq> None) lines)"
  by (simp add: parseFavorites_def filter_map comp_def)

lemma parseFavorites_warnings:
  "snd (parseFavorites lines) =
     map invalidFavoriteWarning (filter (\<lambda>line. fst (parseFavorite line) = None) lines)"
  by (induction lines) (auto simp: parseFavorites_def parseFavorite_warning)


text \<open>
  \<open>parseFavorites\<close> returns for every list of lines, with no \<open>null\<close> among the
  entries: the entries are those of the kept lines, in order, and every dropped line
  gives one warning. A line is dropped exactly when it does not start with \<open>[\<close>, has no
  \<open>]\<close>, or has an empty remainder. The \<open>profileName\<close> of a kept line is the text between
  the opening bracket and the first closing one; its \<open>contextValue\<close> is \<open>undefined\<close>
  exactly when the remainder has no \<open>{\<close> at a positive index, and otherwise the
  substring from after the first \<open>{\<close> to the first \<open>}\<close>. For a line of the form
  \<open>[profile]: label{context}\<close> (no \<open>]\<close> in the profile, no brace in the label, no \<open>}\<close>
  in the context) the entry is the profile, the trimmed label and the context.
\<close>

theorem parseFavorites_entries_correct:
  "None \<notin> set (fst (parseFavorites lines)) \<and>
   fst (parseFavorites lines) =
     map (\<lambda>l. fst (parseFavorite l)) (filter (\<lambda>l. fst (parseFavorite l) \<noteq> None) lines) \<and>
   snd (parseFavorites lines) =
     map invalidFavoriteWarning (filter (\<lambda>l. fst (parseFavorite l) = None) lines) \<and>
   ((fst (parseFavorite line) = None) =
      (\<not> prefix ''['' line \<or> CHR '']'' \<notin> set line \<or> remainderOfLine line = [])) \<and>
   (fst (parseFavorite line) = Some e \<longrightarrow>
      (\<exists>rest. line = ''['' @ profileName e @ '']'' @ rest) \<and>
      CHR '']'' \<notin> set (profileName e) \<and>
      (contextValue e = None) =
        (CHR ''{'' \<notin> set (remainderOfLine line) \<or> prefix ''{'' (remainderOfLine line)) \<and>
      (\<forall>v. contextValue e = Some v \<longrightarrow>
         v = substring (remainderOfLine line) (indexOf (remainderOfLine line) ''{'' + 1)
               (indexOf (remainderOfLine line) ''}''))) \<and>
   (line = ''['' @ prof @ '']'' @ [sep] @ rest \<and> CHR '']'' \<notin> set prof \<and>
    trim rest = lbl @ ''{'' @ ctx @ ''}'' @ tail \<and>
    lbl \<noteq> [] \<and> CHR ''{'' \<notin> set lbl \<and> CHR ''}'' \<notin> set lbl \<and> CHR ''}'' \<notin> set ctx \<longrightarrow>
    fst (parseFavorite line) =
      Some \<lparr> profileName = prof, label = trim lbl, contextValue = Some ctx \<rparr>)"
  using parseFavorites_kept [of lines] parseFavorites_entries [of lines]
    parseFavorites_warnings [of lines] parseFavorite_dropped_iff [of line]
    parseFavorite_kept [of line e] parseFavorite_form [of line prof sep rest lbl ctx tail]
  by blast

theorem parseFavorites_witness:
  "fst (parseFavorites [''[sestest]: /u/home{directory}'', ''sestest'']) =
     [Some \<lparr> profileName = ''sestest'', label = ''/u/home'', contextValue = Some ''directory'' \<rparr>] \<and>
   snd (parseFavorites [''[sestest]: /u/home{directory}'', ''sestest'']) =
     [invalidFavoriteWarning ''sestest'']"
proof -
  let ?l = "''[sestest]: /u/home{directory}''"
  let ?ls = "[?l, ''sestest'']"
  have t: "trim '' /u/home{directory}'' = ''/u/home'' @ ''{'' @ ''directory'' @ ''}'' @ []"
    by (simp add: trim_def is_white_space_def)
  have t2: "trim ''/u/home'' = ''/u/home''"
    by (simp add: trim_def is_white_space_def)
  have kept: "fst (parseFavorite ?l) =
      Some \<lparr> profileName = ''sestest'', label = ''/u/home'', contextValue = Some ''directory'' \<rparr>"
    using parseFavorites_entries_correct
      [of ?ls ?l undefined "''sestest''" "CHR '':''" "'' /u/home{directory}''" "''/u/home''"
          "''directory''" "[]"] t t2
    by simp
  have dropped: "fst (parseFavorite ''sestest'') = None"
    using parseFavorites_entries_correct [of ?ls "''sestest''"] by simp
  from kept dropped show ?thesis
    using parseFavorites_entries_correct
      [of ?ls ?l "\<lparr> profileName = ''sestest'', label = ''/u/home'',
                    contextValue = Some ''directory'' \<rparr>"]
    by simp
qed


text \<open>
  C9. The \<open>contextValue\<close> is not the text between the braces when the label holds a
  closing brace: the first \<open>}\<close> of the remainder is then before the \<open>{\<close>,
  \<open>substring\<close> swaps its two indices, and the entry gets the text from that \<open>}\<close> to
  the \<open>{\<close>, both included. Here the context is \<open>textFile\<close> and the entry holds
  \<open>}b{\<close>.
\<close>

theorem parseFavorite_brace_in_label:
  "fst (parseFavorites [''[sestest]: /u/a}b{textFile}'']) =
     [Some \<lparr> profileName = ''sestest'', label = ''/u/a}b'', contextValue = Some ''}b{'' \<rparr>]"
proof -
  have r: "remainderOfLine ''[sestest]: /u/a}b{textFile}'' = ''/u/a}b{textFile}''"
    by (simp add: remainderOfLine_def indexOf_char substring_from_nonneg trim_def
        is_white_space_def)
  have t: "trim ''/u/a}b'' = ''/u/a}b''"
    by (simp add: trim_def is_white_space_def)
  have "fst (parseFavorite ''[sestest]: /u/a}b{textFile}'') =
     Some \<lparr> profileName = ''sestest'', label = ''/u/a}b'', contextValue = Some ''}b{'' \<rparr>"
    unfolding parseFavorite_def Let_def
    using r [unfolded remainderOfLine_def] t
    by (simp add: indexOf_char substring_def clamp_index_def)
  then show ?thesis by (simp add: parseFavorites_def)
qed

text \<open>
  C8. \<open>validateAndParseUrl\<close> gives a result for every input, whatever the URL
  constructor does with it: the result is the invalid one (all fields \<open>null\<close>) exactly
  when the constructor throws, and the error is logged; for a parsed URL it is valid,
  with the protocol less its last character (the colon), the host name, and the port
  443 when the input contains \<open>:443\<close> and \<open>Number(url.port)\<close> otherwise.
\<close>

theorem validateAndParseUrl_total:
  "((fst (validateAndParseUrl new_URL Number newUrl) =
       \<lparr> valid = False, protocol = None, host = None, port = None \<rparr>) =
      (\<exists>err. new_URL newUrl = Inl err)) \<and>
   (new_URL newUrl = Inl err \<longrightarrow> snd (validateAndParseUrl new_URL Number newUrl) = [err]) \<and>
   (new_URL newUrl = Inr url \<longrightarrow>
      fst (validateAndParseUrl new_URL Number newUrl) =
        \<lparr> valid = True,
          protocol = Some (butlast (url_protocol url)),
          host = Some (url_hostname url),
          port = Some (if \<exists>pre post. newUrl = pre @ '':443'' @ post then 443
                       else Number (url_port url)) \<rparr> \<and>
      (url_protocol url = p @ '':'' \<longrightarrow>
         protocol (fst (validateAndParseUrl new_URL Number newUrl)) = Some p))"
proof -
  have "nat (int (length s) - 1) = length s - 1" for s :: string
    by arith
  then have bl: "slice0 s (-1) = butlast s" for s
    by (simp add: slice0_def butlast_conv_take)
  show ?thesis
    by (cases "new_URL newUrl")
       (auto simp: validateAndParseUrl_def Let_def bl DEFAULT_HTTPS_PORT_def str_includes_iff)
qed

theorem validateAndParseUrl_witness:
  "fst (validateAndParseUrl
          (\<lambda>s. if s = ''https://lpar1.example.com:443/zosmf''
               then Inr \<lparr> url_protocol = ''https:'', url_hostname = ''lpar1.example.com'',
                          url_port = [] \<rparr>
               else Inl (TypeError ''Invalid URL''))
          (\<lambda>s. 0) ''https://lpar1.example.com:443/zosmf'') =
     \<lparr> valid = True, protocol = Some ''https'', host = Some ''lpar1.example.com'',
       port = Some 443 \<rparr> \<and>
   fst (validateAndParseUrl
          (\<lambda>s. if s = ''https://lpar1.example.com:443/zosmf''
               then Inr \<lparr> url_protocol = ''https:'', url_hostname = ''lpar1.example.com'',
                          url_port = [] \<rparr>
               else Inl (TypeError ''Invalid URL''))
          (\<lambda>s. 0) ''not a url'') =
     \<lparr> valid = False, protocol = None, host = None, port = None \<rparr>"
proof -
  let ?new_URL = "\<lambda>s. if s = ''https://lpar1.example.com:443/zosmf''
               then Inr \<lparr> url_protocol = ''https:'', url_hostname = ''lpar1.example.com'',
                          url_port = [] \<rparr>
               else Inl (TypeError ''Invalid URL'')"
  have inc: "\<exists>pre post. ''https://lpar1.example.com:443/zosmf'' = pre @ '':443'' @ post"
    by (rule exI [of _ "''https://lpar1.example.com''"], rule exI [of _ "''/zosmf''"]) simp
  have 1: "fst (validateAndParseUrl ?new_URL (\<lambda>s. 0) ''https://lpar1.example.com:443/zosmf'') =
     \<lparr> valid = True, protocol = Some ''https'', host = Some ''lpar1.example.com'',
       port = Some 443 \<rparr>"
    using validateAndParseUrl_total
      [of ?new_URL "\<lambda>s. 0" "''https://lpar1.example.com:443/zosmf''" undefined
          "\<lparr> url_protocol = ''https:'', url_hostname = ''lpar1.example.com'', url_port = [] \<rparr>"
          "''https''"] inc
    by simp
  have 2: "fst (validateAndParseUrl ?new_URL (\<lambda>s. 0) ''not a url'') =
     \<lparr> valid = False, protocol = None, host = None, port = None \<rparr>"
    using validateAndParseUrl_total
      [of ?new_URL "\<lambda>s. 0" "''not a url''" "TypeError ''Invalid URL''"]
    by simp
  from 1 2 show ?thesis by simp
qed

lemma handleProfileChange_total:
  "\<exists>w' logged'. handleProfileChange providers prof (w, logged) = Inr (w', logged')"
proof (induction providers arbitrary: w)
  case Nil
  then show ?case by simp
next
  case (Cons provider rest)
  obtain r w1 where step: "try_update_provider provider prof w = (r, w1)"
    by (cases "try_update_provider provider prof w")
  show ?case
  proof (cases r)
    case (Inl err)
    with step show ?thesis by simp
  next
    case (Inr u)
    with step Cons.IH [of w1] show ?thesis by simp
  qed
qed

lemma handleProfileChange_all_return:
  "providers_return providers prof w = Some w1 \<Longrightarrow>
   handleProfileChange providers prof (w, logged) = Inr (w1, logged)"
proof (induction providers arbitrary: w)
  case Nil
  then show ?case by simp
next
  case (Cons provider rest)
  then show ?case
    by (cases "try_update_provider provider prof w") (auto split: sum.splits)
qed

lemma handleProfileChange_append:
  "providers_return pre prof w = Some w1 \<Longrightarrow>
   handleProfileChange (pre @ rest) prof (w, logged) = handleProfileChange rest prof (w1, logged)"
proof (induction pre arbitrary: w)
  case Nil
  then show ?case by simp
next
  case (Cons provider pre)
  then show ?case
    by (cases "try_update_provider provider prof w") (auto split: sum.splits)
qed

lemma handleProfileChange_throw:
  assumes "providers_return pre prof w = Some w1"
    and "try_update_provider provider prof w1 = (Inl err, w2)"
  shows "handleProfileChange (pre @ provider # rest) prof (w, logged) =
           Inr (w2, log_error err logged)"
  using handleProfileChange_append [OF assms(1), of "provider # rest" logged] assms(2)
  by simp

lemma providers_return_None:
  "providers_return providers prof w = None \<Longrightarrow>
   \<exists>pre provider rest w1 err w2. providers = pre @ provider # rest \<and>
      providers_return pre prof w = Some w1 \<and>
      try_update_provider provider prof w1 = (Inl err, w2)"
proof (induction providers arbitrary: w)
  case Nil
  then show ?case by simp
next
  case (Cons provider rest)
  obtain r w1 where step: "try_update_provider provider prof w = (r, w1)"
    by (cases "try_update_provider provider prof w")
  show ?case
  proof (cases r)
    case (Inl err)
    with step have "provider # rest = [] @ provider # rest \<and>
      providers_return [] prof w = Some w \<and>
      try_update_provider provider prof w = (Inl err, w1)" by simp
    then show ?thesis by blast
  next
    case (Inr u)
    with step Cons.prems have "providers_return rest prof w1 = None" by simp
    from Cons.IH [OF this] obtain pre p rest' w1' err w2 where
      h: "rest = pre @ p # rest'" "providers_return pre prof w1 = Some w1'"
         "try_update_provider p prof w1' = (Inl err, w2)" by blast
    from h(2) step Inr have "providers_return (provider # pre) prof w = Some w1'" by simp
    with h(1,3) have "provider # rest = (provider # pre) @ p # rest' \<and>
      providers_return (provider # pre) prof w = Some w1' \<and>
      try_update_provider p prof w1' = (Inl err, w2)" by simp
    then show ?thesis by blast
  qed
qed

lemma try_update_provider_throws:
  "(try_update_provider provider prof w = (Inl err, w2)) =
     (getChildren provider w = (Inl err, w2) \<or>
      (\<exists>children w1 node set_profile.
         getChildren provider w = (Inr children, w1) \<and>
         find (\<lambda>n. node_label n = opt_name prof) children = Some node \<and>
         setProfileToChoice node = Some set_profile \<and> set_profile prof w1 = (Inl err, w2)))"
  by (cases "getChildren provider w")
     (auto simp: try_update_provider_def split: sum.splits option.splits)

text \<open>
  C7. \<open>handleProfileChange\<close> never passes an error to its caller: for all providers it
  returns. When the providers before one have returned and that provider throws while its
  children are fetched, or the matching node throws while its profile is set, the
  function returns at once with the state the throw left, and the log has gained the
  message of the error when the thrown value is an \<open>Error\<close> and nothing otherwise;
  the providers after it are not called. When every provider returns, the state is the
  one they leave and nothing is logged. These are the only two cases.
\<close>

theorem handleProfileChange_never_throws:
  "(\<exists>w' logged'. handleProfileChange providers prof (w, logged) = Inr (w', logged')) \<and>
   (providers_return pre prof w = Some w1 \<and> getChildren provider w1 = (Inl err, w2) \<longrightarrow>
      handleProfileChange (pre @ provider # rest) prof (w, logged) =
        Inr (w2, log_error err logged)) \<and>
   (providers_return pre prof w = Some w1 \<and> getChildren provider w1 = (Inr children, w2) \<and>
    find (\<lambda>n. node_label n = opt_name prof) children = Some node \<and>
    setProfileToChoice node = Some set_profile \<and> set_profile prof w2 = (Inl err, w3) \<longrightarrow>
      handleProfileChange (pre @ provider # rest) prof (w, logged) =
        Inr (w3, log_error err logged)) \<and>
   (providers_return providers prof w = Some w1 \<longrightarrow>
      handleProfileChange providers prof (w, logged) = Inr (w1, logged)) \<and>
   (providers_return providers prof w = None \<longrightarrow>
      (\<exists>pre provider rest w1 err w2. providers = pre @ provider # rest \<and>
         providers_return pre prof w = Some w1 \<and>
         (getChildren provider w1 = (Inl err, w2) \<or>
          (\<exists>children w1' node set_profile.
             getChildren provider w1 = (Inr children, w1') \<and>
             find (\<lambda>n. node_label n = opt_name prof) children = Some node \<and>
             setProfileToChoice node = Some set_profile \<and>
             set_profile prof w1' = (Inl err, w2))) \<and>
         handleProfileChange providers prof (w, logged) = Inr (w2, log_error err logged))) \<and>
   log_error (Error m) logged = logged @ [m] \<and>
   log_error (TypeError m) logged = logged @ [m] \<and>
   log_error (Thrown v) logged = logged"
proof (intro conjI impI)
  show "\<exists>w' logged'. handleProfileChange providers prof (w, logged) = Inr (w', logged')"
    by (rule handleProfileChange_total)
next
  assume "providers_return pre prof w = Some w1 \<and> getChildren provider w1 = (Inl err, w2)"
  then show "handleProfileChange (pre @ provider # rest) prof (w, logged) =
        Inr (w2, log_error err logged)"
    using handleProfileChange_throw [of pre prof w w1 provider err w2 rest logged]
    by (simp add: try_update_provider_throws)
next
  assume h: "providers_return pre prof w = Some w1 \<and> getChildren provider w1 = (Inr children, w2) \<and>
    find (\<lambda>n. node_label n = opt_name prof) children = Some node \<and>
    setProfileToChoice node = Some set_profile \<and> set_profile prof w2 = (Inl err, w3)"
  then have "try_update_provider provider prof w1 = (Inl err, w3)"
    by (simp add: try_update_provider_def)
  with h show "handleProfileChange (pre @ provider # rest) prof (w, logged) =
        Inr (w3, log_error err logged)"
    using handleProfileChange_throw [of pre prof w w1 provider err w3 rest logged] by simp
next
  assume "providers_return providers prof w = Some w1"
  then show "handleProfileChange providers prof (w, logged) = Inr (w1, logged)"
    by (rule handleProfileChange_all_return)
next
  assume "providers_return providers prof w = None"
  from providers_return_None [OF this] obtain pre provider rest w1 err w2 where
    h: "providers = pre @ provider # rest" "providers_return pre prof w = Some w1"
       "try_update_provider provider prof w1 = (Inl err, w2)" by blast
  from handleProfileChange_throw [OF h(2,3), of rest logged] h(1)
  have "handleProfileChange providers prof (w, logged) = Inr (w2, log_error err logged)" by simp
  with h show "\<exists>pre provider rest w1 err w2. providers = pre @ provider # rest \<and>
         providers_return pre prof w = Some w1 \<and>
         (getChildren provider w1 = (Inl err, w2) \<or>
          (\<exists>children w1' node set_profile.
             getChildren provider w1 = (Inr children, w1') \<and>
             find (\<lambda>n. node_label n = opt_name prof) children = Some node \<and>
             setProfileToChoice node = Some set_profile \<and>
             set_profile prof w1' = (Inl err, w2))) \<and>
         handleProfileChange providers prof (w, logged) = Inr (w2, log_error err logged)"
    unfolding try_update_provider_throws by blast
qed simp_all


theorem handleProfileChange_witness:
  "providers_return [example_provider] None 0 = Some 1 \<and>
   getChildren example_provider_failing 1 = (Inl (Error ''Profile not found''), 2) \<and>
   handleProfileChange [example_provider, example_provider_failing, example_provider] None (0, [])
     = Inr (2, [''Profile not found'']) \<and>
   getChildren example_provider_node 1 = (Inr [example_node], 2) \<and>
   find (\<lambda>n. node_label n = opt_name (Some (getProfileLoaded ''zosmf1'' ''zosmf'' None)))
     [example_node] = Some example_node \<and>
   handleProfileChange [example_provider, example_provider_node, example_provider]
     (Some (getProfileLoaded ''zosmf1'' ''zosmf'' None)) (0, []) = Inr (3, []) \<and>
   providers_return [example_provider, example_provider] None 0 = Some 2 \<and>
   handleProfileChange [example_provider, example_provider] None (0, []) = Inr (2, []) \<and>
   providers_return [example_provider_failing] None 0 = None \<and>
   handleProfileChange [example_provider_failing] None (0, []) = Inr (1, [''Profile not found''])"
proof -
  let ?prof = "Some (getProfileLoaded ''zosmf1'' ''zosmf'' None)"
  have r1: "providers_return [example_provider] p 0 = Some 1" for p
    by (simp add: example_provider_def try_update_provider_def)
  have r2: "providers_return [example_provider, example_provider] None 0 = Some 2"
    by (simp add: example_provider_def try_update_provider_def)
  have g1: "getChildren example_provider_failing 1 = (Inl (Error ''Profile not found''), 2)"
    by (simp add: example_provider_failing_def)
  have g2: "getChildren example_provider_node 1 = (Inr [example_node], 2)"
    by (simp add: example_provider_node_def)
  have f: "find (\<lambda>n. node_label n = opt_name ?prof) [example_node] = Some example_node"
    by (simp add: example_node_def opt_name_def getProfileLoaded_def)
  have s: "setProfileToChoice example_node = Some (\<lambda>p w. (Inl (Thrown (JStr ''stop'')), Suc w))"
    by (simp add: example_node_def)
  have 1: "handleProfileChange [example_provider, example_provider_failing, example_provider]
      None (0, []) = Inr (2, [''Profile not found''])"
    using handleProfileChange_never_throws
      [where pre = "[example_provider]" and prof = None and w = 0 and ?w1.0 = 1
         and provider = example_provider_failing and err = "Error ''Profile not found''"
         and ?w2.0 = 2 and rest = "[example_provider]" and logged = "[]"]
      r1 g1
    by simp
  have 2: "handleProfileChange [example_provider, example_provider_node, example_provider]
      ?prof (0, []) = Inr (3, [])"
    using handleProfileChange_never_throws
      [where pre = "[example_provider]" and prof = ?prof and w = 0 and ?w1.0 = 1
         and provider = example_provider_node and children = "[example_node]" and ?w2.0 = 2
         and node = example_node and set_profile = "\<lambda>p w. (Inl (Thrown (JStr ''stop'')), Suc w)"
         and err = "Thrown (JStr ''stop'')" and ?w3.0 = 3
         and rest = "[example_provider]" and logged = "[]"]
      r1 g2 f s
    by simp
  have 3: "handleProfileChange [example_provider, example_provider] None (0, []) = Inr (2, [])"
    using handleProfileChange_never_throws
      [where providers = "[example_provider, example_provider]" and prof = None and w = 0
         and ?w1.0 = 2 and logged = "[]"]
      r2
    by simp
  have r4: "providers_return [example_provider_failing] None 0 = None"
    by (simp add: example_provider_failing_def try_update_provider_def)
  note T4 = handleProfileChange_never_throws
      [where providers = "[example_provider_failing]" and prof = None and w = 0
         and logged = "[]"]
  from T4 have "providers_return [example_provider_failing] None 0 = None \<longrightarrow>
      (\<exists>pre provider rest w1 err w2. [example_provider_failing] = pre @ provider # rest \<and>
         providers_return pre None 0 = Some w1 \<and>
         (getChildren provider w1 = (Inl err, w2) \<or>
          (\<exists>children w1' node set_profile.
             getChildren provider w1 = (Inr children, w1') \<and>
             find (\<lambda>n. node_label n = opt_name None) children = Some node \<and>
             setProfileToChoice node = Some set_profile \<and>
             set_profile None w1' = (Inl err, w2))) \<and>
         handleProfileChange [example_provider_failing] None (0, []) =
           Inr (w2, log_error err []))"
    by (rule conjunct1 [OF conjunct2 [OF conjunct2 [OF conjunct2 [OF conjunct2]]]])
  then have "\<exists>pre provider rest w1 err w2. [example_provider_failing] = pre @ provider # rest \<and>
         providers_return pre None 0 = Some w1 \<and>
         (getChildren provider w1 = (Inl err, w2) \<or>
          (\<exists>children w1' node set_profile.
             getChildren provider w1 = (Inr children, w1') \<and>
             find (\<lambda>n. node_label n = opt_name None) children = Some node \<and>
             setProfileToChoice node = Some set_profile \<and>
             set_profile None w1' = (Inl err, w2))) \<and>
         handleProfileChange [example_provider_failing] None (0, []) =
           Inr (w2, log_error err [])"
    using r4 by (rule mp)
  then have 4: "handleProfileChange [example_provider_failing] None (0, [])
      = Inr (1, [''Profile not found''])"
  proof (elim exE conjE)
    fix pre provider rest w1 err w2
    assume d: "[example_provider_failing] = pre @ provider # rest"
      and p: "providers_return pre None 0 = Some w1"
      and g: "getChildren provider w1 = (Inl err, w2) \<or>
          (\<exists>children w1' node set_profile.
             getChildren provider w1 = (Inr children, w1') \<and>
             find (\<lambda>n. node_label n = opt_name None) children = Some node \<and>
             setProfileToChoice node = Some set_profile \<and>
             set_profile None w1' = (Inl err, w2))"
      and res: "handleProfileChange [example_provider_failing] None (0, []) =
                Inr (w2, log_error err [])"
    from d have pre: "pre = []" by (cases pre) simp_all
    with d have pr: "provider = example_provider_failing" by simp
    from p pre have w1: "w1 = 0" by simp
    have gc: "getChildren example_provider_failing 0 = (Inl (Error ''Profile not found''), 1)"
      by (simp add: example_provider_failing_def)
    from g have "err = Error ''Profile not found'' \<and> w2 = 1"
      unfolding pr w1 gc by simp
    with res show ?thesis by simp
  qed
  from r1 r2 g1 g2 f 1 2 3 r4 4 show ?thesis by simp
qed

lemma find_append_cases:
  "find P (xs @ ys) = (case find P xs of None \<Rightarrow> find P ys | Some x \<Rightarrow> Some x)"
  by (induction xs) auto

lemma foldl_assign_lookup:
  "k \<noteq> ''__proto__'' \<Longrightarrow>
   fst (foldl (\<lambda>obj arg. set_property obj (argName arg) (argValue arg)) (m, b) args) k =
     (case find (\<lambda>arg. argName arg = k) (rev args) of
        None \<Rightarrow> m k
      | Some arg \<Rightarrow> Some (argValue arg))"
  by (induction args arbitrary: m b)
     (auto simp: find_append_cases set_property_def split: option.splits)

lemma foldl_assign_plain:
  "fst (foldl (\<lambda>obj arg. set_property obj (argName arg) (argValue arg)) (m, False) args) k =
     (case find (\<lambda>arg. argName arg = k) (rev args) of
        None \<Rightarrow> m k
      | Some arg \<Rightarrow> Some (argValue arg))"
  by (induction args arbitrary: m)
     (auto simp: find_append_cases set_property_def split: option.splits)

lemma foldl_assign_inherits:
  "\<forall>arg\<in>set args. argName arg = ''__proto__'' \<longrightarrow> argValue arg \<noteq> JNull \<Longrightarrow>
   snd (foldl (\<lambda>obj arg. set_property obj (argName arg) (argValue arg)) (m, True) args) \<and>
   fst (foldl (\<lambda>obj arg. set_property obj (argName arg) (argValue arg)) (m, True) args)
     ''__proto__'' = m ''__proto__''"
  by (induction args arbitrary: m) (auto simp: set_property_def)

lemma foldl_assign_proto:
  "m ''__proto__'' = None \<Longrightarrow>
   fst (foldl (\<lambda>obj arg. set_property obj (argName arg) (argValue arg)) (m, True) args)
     ''__proto__'' =
     (case dropWhile (\<lambda>arg. \<not> (argName arg = ''__proto__'' \<and> argValue arg = JNull)) args of
        [] \<Rightarrow> None
      | arg # rest \<Rightarrow> map_option argValue (find (\<lambda>arg. argName arg = ''__proto__'') (rev rest)))"
proof (induction args arbitrary: m)
  case Nil
  then show ?case by simp
next
  case (Cons a args)
  show ?case
  proof (cases "argName a = ''__proto__''")
    case True
    show ?thesis
    proof (cases "argValue a = JNull")
      case True
      with \<open>argName a = ''__proto__''\<close>
      have st: "set_property (m, True) (argName a) (argValue a) = (m, False)"
        by (simp add: set_property_def)
      have "fst (foldl (\<lambda>obj arg. set_property obj (argName arg) (argValue arg)) (m, False) args)
              ''__proto__'' =
            map_option argValue (find (\<lambda>arg. argName arg = ''__proto__'') (rev args))"
        using Cons.prems by (simp only: foldl_assign_plain split: option.splits) simp
      with st True \<open>argName a = ''__proto__''\<close> show ?thesis by simp
    next
      case False
      with True have st: "set_property (m, True) (argName a) (argValue a) = (m, True)"
        by (simp add: set_property_def)
      from False Cons.IH [of m, OF Cons.prems] st show ?thesis by simp
    qed
  next
    case False
    then have st: "set_property (m, True) (argName a) (argValue a)
        = (m(argName a \<mapsto> argValue a), True)"
      by (simp add: set_property_def)
    from False Cons.prems have "(m(argName a \<mapsto> argValue a)) ''__proto__'' = None" by simp
    from Cons.IH [of "m(argName a \<mapsto> argValue a)", OF this] False show ?thesis
      by (simp only: foldl.simps st dropWhile.simps simp_thms if_True)
  qed
qed

lemma find_rev_distinct:
  "distinct (map f xs) \<Longrightarrow> x \<in> set xs \<Longrightarrow> find (\<lambda>y. f y = f x) (rev xs) = Some x"
proof (induction xs)
  case Nil
  then show ?case by simp
next
  case (Cons a xs)
  show ?case
  proof (cases "x = a")
    case True
    from Cons.prems(1) have "f a \<notin> f ` set xs" by simp
    then have "\<forall>y\<in>set xs. f y \<noteq> f a" by (metis imageI)
    with True have "find (\<lambda>y. f y = f x) (rev xs) = None"
      by (simp add: find_None_iff)
    with True show ?thesis by (simp add: find_append_cases)
  next
    case False
    with Cons show ?thesis by (simp add: find_append_cases)
  qed
qed

lemma getMergedAttrs_other:
  "k \<noteq> ''__proto__'' \<Longrightarrow> getMergedAttrs mProfileInfo (Some attrs) k =
     map_option argValue (find (\<lambda>arg. argName arg = k)
        (rev (knownArgs (mergeArgsForProfile mProfileInfo attrs True))))"
  by (simp add: getMergedAttrs_def foldl_assign_lookup split: option.splits)

lemma getMergedAttrs_proto:
  "getMergedAttrs mProfileInfo (Some attrs) ''__proto__'' =
     (case dropWhile (\<lambda>arg. \<not> (argName arg = ''__proto__'' \<and> argValue arg = JNull))
             (knownArgs (mergeArgsForProfile mProfileInfo attrs True)) of
        [] \<Rightarrow> None
      | arg # rest \<Rightarrow> map_option argValue (find (\<lambda>arg. argName arg = ''__proto__'') (rev rest)))"
  by (simp only: getMergedAttrs_def option.case) (rule foldl_assign_proto, simp)

lemma dropWhile_Cons_split:
  "dropWhile P xs = a # rest \<Longrightarrow> xs = takeWhile P xs @ a # rest \<and> \<not> P a"
  by (metis takeWhile_dropWhile_id hd_dropWhile list.sel(1) list.distinct(1))

lemma getMergedAttrs_proto_distinct:
  assumes d: "distinct (map argName (knownArgs (mergeArgsForProfile mProfileInfo attrs True)))"
  shows "getMergedAttrs mProfileInfo (Some attrs) ''__proto__'' = None"
proof -
  let ?args = "knownArgs (mergeArgsForProfile mProfileInfo attrs True)"
  let ?P = "\<lambda>arg. \<not> (argName arg = ''__proto__'' \<and> argValue arg = JNull)"
  show ?thesis
  proof (cases "dropWhile ?P ?args")
    case Nil
    show ?thesis unfolding getMergedAttrs_proto Nil by simp
  next
    case (Cons a rest)
    from dropWhile_Cons_split [OF Cons]
    have sp: "?args = takeWhile ?P ?args @ a # rest" and a: "argName a = ''__proto__''"
      by simp_all
    from d have "distinct (map argName (takeWhile ?P ?args @ a # rest))"
      using sp by simp
    then have "argName a \<notin> argName ` set rest" by simp
    then have "\<forall>x\<in>set rest. argName x \<noteq> argName a" by (metis imageI)
    with a have "\<forall>x\<in>set rest. argName x \<noteq> ''__proto__''" by simp
    then have "find (\<lambda>arg. argName arg = ''__proto__'') (rev rest) = None"
      by (simp add: find_None_iff)
    then show ?thesis unfolding getMergedAttrs_proto Cons by simp
  qed
qed

lemma getMergedAttrs_dom:
  assumes d: "distinct (map argName (knownArgs (mergeArgsForProfile mProfileInfo attrs True)))"
  shows "dom (getMergedAttrs mProfileInfo (Some attrs)) =
     argName ` set (knownArgs (mergeArgsForProfile mProfileInfo attrs True)) - {''__proto__''}"
proof -
  let ?args = "knownArgs (mergeArgsForProfile mProfileInfo attrs True)"
  let ?r = "getMergedAttrs mProfileInfo (Some attrs)"
  have "(k \<in> dom ?r) = (k \<in> argName ` set ?args - {''__proto__''})" for k
  proof (cases "k = ''__proto__''")
    case True
    with getMergedAttrs_proto_distinct [OF d] show ?thesis by (simp add: dom_def)
  next
    case False
    have "(find (\<lambda>arg. argName arg = k) (rev ?args) \<noteq> None) = (k \<in> argName ` set ?args)"
      by (auto simp: find_None_iff)
    with False getMergedAttrs_other [OF False, of mProfileInfo attrs] show ?thesis
      by (simp add: dom_def)
  qed
  then show ?thesis by blast
qed


text \<open>
  C5, as amended. \<open>getMergedAttrs\<close> returns the empty object for a null \<open>profAttrs\<close>.
  Otherwise, with the known arguments that \<open>mergeArgsForProfile\<close> returns when asked for
  the secure values: under every name other than \<open>__proto__\<close> the result holds the value
  of the last known argument of that name, and nothing when there is none. A known
  argument named \<open>__proto__\<close> gives the result no property, unless one before it had that
  name and the value \<open>null\<close>; after such a one the name is stored like the others. So
  when the names of the known arguments are distinct, the properties of the result are
  those names without \<open>__proto__\<close>, each with the value of its argument.
\<close>

theorem getMergedAttrs_known_args:
  "getMergedAttrs mProfileInfo None = Map.empty \<and>
   (k \<noteq> ''__proto__'' \<longrightarrow>
      getMergedAttrs mProfileInfo (Some attrs) k =
        map_option argValue
          (find (\<lambda>arg. argName arg = k)
             (rev (knownArgs (mergeArgsForProfile mProfileInfo attrs True))))) \<and>
   getMergedAttrs mProfileInfo (Some attrs) ''__proto__'' =
     (case dropWhile (\<lambda>arg. \<not> (argName arg = ''__proto__'' \<and> argValue arg = JNull))
             (knownArgs (mergeArgsForProfile mProfileInfo attrs True)) of
        [] \<Rightarrow> None
      | arg # rest \<Rightarrow> map_option argValue (find (\<lambda>arg. argName arg = ''__proto__'') (rev rest))) \<and>
   (distinct (map argName (knownArgs (mergeArgsForProfile mProfileInfo attrs True))) \<longrightarrow>
      dom (getMergedAttrs mProfileInfo (Some attrs)) =
        argName ` set (knownArgs (mergeArgsForProfile mProfileInfo attrs True)) - {''__proto__''} \<and>
      (arg \<in> set (knownArgs (mergeArgsForProfile mProfileInfo attrs True)) \<and>
       argName arg \<noteq> ''__proto__'' \<longrightarrow>
         getMergedAttrs mProfileInfo (Some attrs) (argName arg) = Some (argValue arg)))"
proof (intro conjI impI)
  show "getMergedAttrs mProfileInfo None = Map.empty"
    by (simp add: getMergedAttrs_def)
next
  assume "k \<noteq> ''__proto__''"
  then show "getMergedAttrs mProfileInfo (Some attrs) k =
        map_option argValue
          (find (\<lambda>arg. argName arg = k)
             (rev (knownArgs (mergeArgsForProfile mProfileInfo attrs True))))"
    by (rule getMergedAttrs_other)
next
  show "getMergedAttrs mProfileInfo (Some attrs) ''__proto__'' =
     (case dropWhile (\<lambda>arg. \<not> (argName arg = ''__proto__'' \<and> argValue arg = JNull))
             (knownArgs (mergeArgsForProfile mProfileInfo attrs True)) of
        [] \<Rightarrow> None
      | arg # rest \<Rightarrow> map_option argValue (find (\<lambda>arg. argName arg = ''__proto__'') (rev rest)))"
    by (rule getMergedAttrs_proto)
next
  assume "distinct (map argName (knownArgs (mergeArgsForProfile mProfileInfo attrs True)))"
  then show "dom (getMergedAttrs mProfileInfo (Some attrs)) =
        argName ` set (knownArgs (mergeArgsForProfile mProfileInfo attrs True)) - {''__proto__''}"
    by (rule getMergedAttrs_dom)
next
  assume d: "distinct (map argName (knownArgs (mergeArgsForProfile mProfileInfo attrs True)))"
    and a: "arg \<in> set (knownArgs (mergeArgsForProfile mProfileInfo attrs True)) \<and>
       argName arg \<noteq> ''__proto__''"
  from a have "getMergedAttrs mProfileInfo (Some attrs) (argName arg) =
        map_option argValue
          (find (\<lambda>x. argName x = argName arg)
             (rev (knownArgs (mergeArgsForProfile mProfileInfo attrs True))))"
    by (simp add: getMergedAttrs_other)
  also have "\<dots> = Some (argValue arg)"
    using find_rev_distinct [OF d, of arg] a by simp
  finally show "getMergedAttrs mProfileInfo (Some attrs) (argName arg) = Some (argValue arg)" .
qed

lemma example_zosmf_args:
  "knownArgs (mergeArgsForProfile example_info example_zosmf True) =
     [\<lparr> argName = ''host'', argValue = JStr ''lpar1.example.com'' \<rparr>,
      \<lparr> argName = ''port'', argValue = JNum 443 \<rparr>,
      \<lparr> argName = ''tokenType'', argValue = JStr ''apimlAuthenticationToken'' \<rparr>,
      \<lparr> argName = ''tokenValue'', argValue = JStr ''secret'' \<rparr>]"
  by (simp add: example_info_def example_zosmf_def example_args_def)

theorem getMergedAttrs_witness:
  "''host'' \<noteq> ''__proto__'' \<and>
   distinct (map argName (knownArgs (mergeArgsForProfile example_info example_zosmf True))) \<and>
   \<lparr> argName = ''host'', argValue = JStr ''lpar1.example.com'' \<rparr>
     \<in> set (knownArgs (mergeArgsForProfile example_info example_zosmf True)) \<and>
   getMergedAttrs example_info (Some example_zosmf) ''host'' = Some (JStr ''lpar1.example.com'') \<and>
   dom (getMergedAttrs example_info (Some example_zosmf)) =
     {''host'', ''port'', ''tokenType'', ''tokenValue''}"
proof -
  have h: "''host'' \<noteq> ''__proto__''" by simp
  have d: "distinct (map argName (knownArgs (mergeArgsForProfile example_info example_zosmf True)))"
    by (simp add: example_zosmf_args)
  have m: "\<lparr> argName = ''host'', argValue = JStr ''lpar1.example.com'' \<rparr>
     \<in> set (knownArgs (mergeArgsForProfile example_info example_zosmf True))"
    by (simp add: example_zosmf_args)
  note T = getMergedAttrs_known_args
    [where mProfileInfo = example_info and attrs = example_zosmf and k = "''host''"
       and arg = "\<lparr> argName = ''host'', argValue = JStr ''lpar1.example.com'' \<rparr>"]
  from T h have "getMergedAttrs example_info (Some example_zosmf) ''host'' =
      map_option argValue
        (find (\<lambda>arg. argName arg = ''host'')
           (rev (knownArgs (mergeArgsForProfile example_info example_zosmf True))))"
    by blast
  then have v: "getMergedAttrs example_info (Some example_zosmf) ''host''
      = Some (JStr ''lpar1.example.com'')"
    unfolding example_zosmf_args by simp
  from T d have "\<lparr> argName = ''host'', argValue = JStr ''lpar1.example.com'' \<rparr>
       \<in> set (knownArgs (mergeArgsForProfile example_info example_zosmf True)) \<and>
     argName \<lparr> argName = ''host'', argValue = JStr ''lpar1.example.com'' \<rparr> \<noteq> ''__proto__'' \<longrightarrow>
     getMergedAttrs example_info (Some example_zosmf)
       (argName \<lparr> argName = ''host'', argValue = JStr ''lpar1.example.com'' \<rparr>) =
     Some (argValue \<lparr> argName = ''host'', argValue = JStr ''lpar1.example.com'' \<rparr>)"
    by blast
  with m have "getMergedAttrs example_info (Some example_zosmf) ''host''
      = Some (JStr ''lpar1.example.com'')"
    by simp
  moreover from T d have "dom (getMergedAttrs example_info (Some example_zosmf)) =
       argName ` set (knownArgs (mergeArgsForProfile example_info example_zosmf True))
         - {''__proto__''}"
    by blast
  moreover have "argName ` set (knownArgs (mergeArgsForProfile example_info example_zosmf True))
         - {''__proto__''} = {''host'', ''port'', ''tokenType'', ''tokenValue''}"
    unfolding example_zosmf_args by simp
  ultimately show ?thesis using h d m by simp
qed

text \<open>
  C5 as stated fails for a known argument named \<open>__proto__\<close>: the assignment goes to
  the accessor that the object inherits, the result is the empty object, and it does not
  map the name to the value of the argument.
\<close>

theorem getMergedAttrs_proto_counterexample:
  "\<lparr> argName = ''__proto__'', argValue = JStr ''lpar1.example.com'' \<rparr>
     \<in> set (knownArgs (mergeArgsForProfile example_info_proto example_zosmf True)) \<and>
   getMergedAttrs example_info_proto (Some example_zosmf) = Map.empty \<and>
   getMergedAttrs example_info_proto (Some example_zosmf) ''__proto__''
     \<noteq> Some (JStr ''lpar1.example.com'')"
  by (simp add: getMergedAttrs_def example_info_proto_def example_info_def set_property_def)

lemma startsWith_drop_char:
  "startsWith (drop i s) [c] = (i < length s \<and> s ! i = c)"
proof (induction s arbitrary: i)
  case Nil
  then show ?case by simp
next
  case (Cons x t)
  then show ?case by (cases i) auto
qed

lemma lastIndexOf_upto_char:
  "(if \<exists>i\<le>n. i < length s \<and> s ! i = c
    then \<exists>r\<le>n. lastIndexOf_upto s [c] n = int r \<and> r < length s \<and> s ! r = c \<and>
           (\<forall>i. r < i \<and> i \<le> n \<and> i < length s \<longrightarrow> s ! i \<noteq> c)
    else lastIndexOf_upto s [c] n = -1)"
proof (induction n)
  case 0
  show ?case using startsWith_drop_char [of 0 s c] by auto
next
  case (Suc n)
  show ?case
  proof (cases "Suc n < length s \<and> s ! Suc n = c")
    case True
    then show ?thesis
      using startsWith_drop_char [of "Suc n" s c] by (auto intro!: exI [of _ "Suc n"])
  next
    case False
    then have ns: "\<not> startsWith (drop (Suc n) s) [c]"
      using startsWith_drop_char [of "Suc n" s c] by simp
    have ex: "(\<exists>i\<le>Suc n. i < length s \<and> s ! i = c) = (\<exists>i\<le>n. i < length s \<and> s ! i = c)"
      using False by (metis le_Suc_eq)
    show ?thesis
    proof (cases "\<exists>i\<le>n. i < length s \<and> s ! i = c")
      case True
      with Suc obtain r where r: "r \<le> n" "lastIndexOf_upto s [c] n = int r" "r < length s"
        "s ! r = c" "\<forall>i. r < i \<and> i \<le> n \<and> i < length s \<longrightarrow> s ! i \<noteq> c"
        by auto
      have "\<forall>i. r < i \<and> i \<le> Suc n \<and> i < length s \<longrightarrow> s ! i \<noteq> c"
        using r(5) False by (metis le_Suc_eq)
      with r ns ex True show ?thesis
        by (auto intro!: exI [of _ r])
    next
      case F2: False
      with Suc ns ex show ?thesis by auto
    qed
  qed
qed

lemma str_includes_char: "str_includes s [c] = (c \<in> set s)"
  by (simp add: str_includes_def indexOf_char)

lemma last_segment:
  assumes "c \<in> set s"
  shows "\<exists>rest. s = slice0 s (lastIndexOf s [c]) @ c # rest \<and> c \<notin> set rest"
proof -
  from assms obtain i where "i < length s" "s ! i = c" by (auto simp: in_set_conv_nth)
  then have "\<exists>i\<le>length s. i < length s \<and> s ! i = c" by (auto intro: less_imp_le)
  with lastIndexOf_upto_char [of "length s" s c]
  obtain r where r: "lastIndexOf s [c] = int r" "r < length s" "s ! r = c"
    "\<forall>i. r < i \<and> i < length s \<longrightarrow> s ! i \<noteq> c"
    by (auto simp: lastIndexOf_def)
  have "s = take r s @ s ! r # drop (Suc r) s" using r(2) by (simp add: id_take_nth_drop)
  moreover have "c \<notin> set (drop (Suc r) s)"
  proof
    assume "c \<in> set (drop (Suc r) s)"
    then obtain j where "j < length (drop (Suc r) s)" "drop (Suc r) s ! j = c"
      by (auto simp: in_set_conv_nth)
    then have "Suc r + j < length s" "s ! (Suc r + j) = c" by auto
    with r(4) show False by auto
  qed
  ultimately show ?thesis using r by (auto simp: slice0_def)
qed

lemma ancestor_of_last_segment:
  assumes "c \<notin> set rest"
  shows "prefix (p @ [c]) (t @ c # rest) = (p = t \<or> prefix (p @ [c]) t)"
proof
  assume pre: "prefix (p @ [c]) (t @ c # rest)"
  then consider "prefix (p @ [c]) t" | us where "p @ [c] = t @ us" "prefix us (c # rest)"
    by (auto simp: prefix_append)
  then show "p = t \<or> prefix (p @ [c]) t"
  proof cases
    case 1
    then show ?thesis by simp
  next
    case 2
    show ?thesis
    proof (cases us rule: rev_cases)
      case Nil
      with 2 show ?thesis by simp
    next
      case (snoc vs x)
      with 2 have "p = t @ vs" "x = c" by auto
      with 2(2) snoc have "prefix (vs @ [c]) (c # rest)" by simp
      with assms have "vs = []"
        by (cases vs) (auto simp: prefix_def Cons_eq_append_conv)
      with \<open>p = t @ vs\<close> show ?thesis by simp
    qed
  qed
next
  assume "p = t \<or> prefix (p @ [c]) t"
  then show "prefix (p @ [c]) (t @ c # rest)"
    by (auto simp: prefix_def)
qed


lemma ancestor_has_dot: "is_ancestor p t \<Longrightarrow> CHR ''.'' \<in> set t"
  by (auto simp: is_ancestor_def prefix_def)

lemma ancestor_shorter: "is_ancestor p t \<Longrightarrow> length p < length t"
  by (auto simp: is_ancestor_def prefix_def)

lemma parent_loop_deepest:
  "if \<exists>p. is_ancestor p t \<and> secure_token config p
   then is_ancestor (parent_loop config t parent) t \<and>
        secure_token config (parent_loop config t parent) \<and>
        (\<forall>p. is_ancestor p t \<and> secure_token config p
           \<longrightarrow> length p \<le> length (parent_loop config t parent))
   else parent_loop config t parent = parent"
proof (induction config t parent rule: parent_loop.induct)
  case (1 config t parent)
  let ?t' = "slice0 t (lastIndexOf t ''.'')"
  show ?case
  proof (cases "CHR ''.'' \<in> set t")
    case False
    then have "\<not> (\<exists>p. is_ancestor p t \<and> secure_token config p)"
      using ancestor_has_dot by blast
    moreover from False have "parent_loop config t parent = parent"
      by (subst parent_loop.simps) (simp add: str_includes_char)
    ultimately show ?thesis by auto
  next
    case True
    then have inc: "str_includes t ''.''" by (simp add: str_includes_char)
    from True obtain rest where t: "t = ?t' @ CHR ''.'' # rest" and rest: "CHR ''.'' \<notin> set rest"
      using last_segment [of "CHR ''.''" t] by blast
    have anc: "is_ancestor p t = (p = ?t' \<or> is_ancestor p ?t')" for p
      using ancestor_of_last_segment [OF rest, of p ?t'] t by (simp add: is_ancestor_def)
    show ?thesis
    proof (cases "secure_token config ?t'")
      case True
      with inc have res: "parent_loop config t parent = ?t'"
        by (subst parent_loop.simps) (simp add: secure_token_def)
      have "\<forall>p. is_ancestor p t \<longrightarrow> length p \<le> length ?t'"
        using anc ancestor_shorter by (metis less_imp_le order_refl)
      with True res anc show ?thesis by auto
    next
      case False
      with inc have res: "parent_loop config t parent = parent_loop config ?t' parent"
        by (subst parent_loop.simps) (simp add: secure_token_def)
      from False inc have IH:
        "if \<exists>p. is_ancestor p ?t' \<and> secure_token config p
         then is_ancestor (parent_loop config ?t' parent) ?t' \<and>
              secure_token config (parent_loop config ?t' parent) \<and>
              (\<forall>p. is_ancestor p ?t' \<and> secure_token config p
                 \<longrightarrow> length p \<le> length (parent_loop config ?t' parent))
         else parent_loop config ?t' parent = parent"
        using "1.IH" by (simp add: secure_token_def)
      have ex: "(\<exists>p. is_ancestor p t \<and> secure_token config p) =
                (\<exists>p. is_ancestor p ?t' \<and> secure_token config p)"
        using anc False by auto
      show ?thesis
      proof (cases "\<exists>p. is_ancestor p ?t' \<and> secure_token config p")
        case True
        with IH ex anc False res show ?thesis by (simp only: if_True) metis
      next
        case F: False
        with IH ex res show ?thesis by auto
      qed
    qed
  qed
qed

lemma immediate_parent:
  assumes "CHR ''.'' \<in> set nm"
  shows "is_ancestor (slice0 nm (lastIndexOf nm ''.'')) nm \<and>
         (\<forall>p. is_ancestor p nm \<longrightarrow> length p \<le> length (slice0 nm (lastIndexOf nm ''.'')))"
proof -
  let ?t' = "slice0 nm (lastIndexOf nm ''.'')"
  from assms obtain rest where t: "nm = ?t' @ CHR ''.'' # rest" and rest: "CHR ''.'' \<notin> set rest"
    using last_segment [of "CHR ''.''" nm] by blast
  have anc: "is_ancestor p nm = (p = ?t' \<or> is_ancestor p ?t')" for p
    using ancestor_of_last_segment [OF rest, of p ?t'] t by (simp add: is_ancestor_def)
  then show ?thesis using ancestor_shorter by (metis less_imp_le order_refl)
qed


lemma getParentProfileForToken_deepest:
  assumes "CHR ''.'' \<in> set nm"
  shows "is_ancestor (getParentProfileForToken nm config) nm \<and>
         (if \<exists>p. is_ancestor p nm \<and> secure_token config p
          then secure_token config (getParentProfileForToken nm config) \<and>
               (\<forall>p. is_ancestor p nm \<and> secure_token config p
                  \<longrightarrow> length p \<le> length (getParentProfileForToken nm config))
          else \<forall>p. is_ancestor p nm \<longrightarrow> length p \<le> length (getParentProfileForToken nm config))"
  using parent_loop_deepest [of nm config "slice0 nm (lastIndexOf nm ''.'')"]
    immediate_parent [OF assms]
  by (auto simp: getParentProfileForToken_def split: if_splits)

text \<open>
  C2. Once \<open>getProfileInfo\<close> has answered: for a name with a period, when there is no
  default base profile or its secure properties lack \<open>tokenValue\<close>,
  \<open>fetchBaseProfile\<close> returns a profile of type \<open>base\<close> whose name is an ancestor
  prefix of the name: the longest one with a secure \<open>tokenValue\<close> if there is one, the
  longest of all (the immediate parent) if there is none. With a default base profile
  and a name that is missing, has no period, or a base profile with a secure
  \<open>tokenValue\<close>, it returns the merged default base profile; with no default base
  profile and no period in the name it returns \<open>undefined\<close>.
\<close>

theorem fetchBaseProfile_result:
  "getProfileInfo env c = Inr c1 \<longrightarrow>
   (CHR ''.'' \<in> set nm \<and>
    (mpi_getDefaultProfile info ''base'' = None \<or>
     (\<exists>attrs. mpi_getDefaultProfile info ''base'' = Some attrs \<and>
        ''tokenValue'' \<notin> set (securePropsForProfile info (profName attrs)))) \<longrightarrow>
      (\<exists>l. fetchBaseProfile info env c (Some nm) = Inr (Some l, c1) \<and>
           type l = ''base'' \<and> profile l = Some (profiles_get info (name l)) \<and>
           is_ancestor (name l) nm \<and>
           (if \<exists>p. is_ancestor p nm \<and> secure_token info p
            then secure_token info (name l) \<and>
                 (\<forall>p. is_ancestor p nm \<and> secure_token info p \<longrightarrow> length p \<le> length (name l))
            else \<forall>p. is_ancestor p nm \<longrightarrow> length p \<le> length (name l)))) \<and>
   (mpi_getDefaultProfile info ''base'' = Some base \<and>
    (pName = None \<or> (\<exists>n. pName = Some n \<and> CHR ''.'' \<notin> set n) \<or>
     ''tokenValue'' \<in> set (securePropsForProfile info (profName base))) \<longrightarrow>
      fetchBaseProfile info env c pName =
        Inr (Some (getProfileLoaded (profName base) (profType base)
                     (Some (getMergedAttrs info (Some base)))), c1)) \<and>
   (mpi_getDefaultProfile info ''base'' = None \<and>
    (pName = None \<or> (\<exists>n. pName = Some n \<and> CHR ''.'' \<notin> set n)) \<longrightarrow>
      fetchBaseProfile info env c pName = Inr (None, c1))"
proof (intro impI conjI)
  assume ok: "getProfileInfo env c = Inr c1"
  assume h: "CHR ''.'' \<in> set nm \<and>
    (mpi_getDefaultProfile info ''base'' = None \<or>
     (\<exists>attrs. mpi_getDefaultProfile info ''base'' = Some attrs \<and>
        ''tokenValue'' \<notin> set (securePropsForProfile info (profName attrs))))"
  let ?l = "getProfileLoaded (getParentProfileForToken nm info) ''base''
              (Some (profiles_get info (getParentProfileForToken nm info)))"
  from h ok have "fetchBaseProfile info env c (Some nm) = Inr (Some ?l, c1)"
    by (auto simp: fetchBaseProfile_def base_profile_for_def ebind_def opt_includes_def
        str_includes_char Let_def)
  moreover have "type ?l = ''base''" "name ?l = getParentProfileForToken nm info"
    "profile ?l = Some (profiles_get info (name ?l))"
    by (simp_all add: getProfileLoaded_def)
  moreover from h have "is_ancestor (getParentProfileForToken nm info) nm \<and>
         (if \<exists>p. is_ancestor p nm \<and> secure_token info p
          then secure_token info (getParentProfileForToken nm info) \<and>
               (\<forall>p. is_ancestor p nm \<and> secure_token info p
                  \<longrightarrow> length p \<le> length (getParentProfileForToken nm info))
          else \<forall>p. is_ancestor p nm \<longrightarrow> length p \<le> length (getParentProfileForToken nm info))"
    using getParentProfileForToken_deepest [of nm info] by blast
  ultimately show "\<exists>l. fetchBaseProfile info env c (Some nm) = Inr (Some l, c1) \<and>
           type l = ''base'' \<and> profile l = Some (profiles_get info (name l)) \<and>
           is_ancestor (name l) nm \<and>
           (if \<exists>p. is_ancestor p nm \<and> secure_token info p
            then secure_token info (name l) \<and>
                 (\<forall>p. is_ancestor p nm \<and> secure_token info p \<longrightarrow> length p \<le> length (name l))
            else \<forall>p. is_ancestor p nm \<longrightarrow> length p \<le> length (name l))"
    by (intro exI [of _ ?l]) (simp only:, simp)
next
  assume ok: "getProfileInfo env c = Inr c1"
  assume "mpi_getDefaultProfile info ''base'' = Some base \<and>
    (pName = None \<or> (\<exists>n. pName = Some n \<and> CHR ''.'' \<notin> set n) \<or>
     ''tokenValue'' \<in> set (securePropsForProfile info (profName base)))"
  with ok show "fetchBaseProfile info env c pName =
        Inr (Some (getProfileLoaded (profName base) (profType base)
                     (Some (getMergedAttrs info (Some base)))), c1)"
    by (auto simp: fetchBaseProfile_def base_profile_for_def ebind_def opt_includes_def
        str_includes_char Let_def)
next
  assume ok: "getProfileInfo env c = Inr c1"
  assume "mpi_getDefaultProfile info ''base'' = None \<and>
    (pName = None \<or> (\<exists>n. pName = Some n \<and> CHR ''.'' \<notin> set n))"
  with ok show "fetchBaseProfile info env c pName = Inr (None, c1)"
    by (auto simp: fetchBaseProfile_def base_profile_for_def ebind_def opt_includes_def
        str_includes_char Let_def)
qed

lemma lastIndexOf_example: "lastIndexOf ''lpar1.zosmf'' ''.'' = 5"
  by (simp add: lastIndexOf_def)

lemma str_includes_example: "\<not> str_includes ''lpar1'' ''.''"
  by (simp add: str_includes_char)

theorem fetchBaseProfile_witness:
  "fetchBaseProfile example_info Map.empty new_ProfilesCache (Some ''lpar1.zosmf'') =
     Inr (Some (getProfileLoaded ''lpar1'' ''base'' (Some Map.empty)), new_ProfilesCache) \<and>
   secure_token example_info ''lpar1'' \<and> is_ancestor ''lpar1'' ''lpar1.zosmf''"
proof -
  have gpi: "getProfileInfo Map.empty new_ProfilesCache = Inr new_ProfilesCache"
    by (simp add: getProfileInfo_def checkForEnvVarAndUpdate_def new_ProfilesCache_def)
  have base: "mpi_getDefaultProfile example_info ''base'' = Some example_base"
    by (simp add: example_info_def example_zosmf_def example_base_def)
  have sec: "''tokenValue'' \<notin> set (securePropsForProfile example_info (profName example_base))"
    by (simp add: example_info_def)
  have parent: "getParentProfileForToken ''lpar1.zosmf'' example_info = ''lpar1''"
    by (simp add: getParentProfileForToken_def parent_loop.simps [of _ "''lpar1.zosmf''"]
        lastIndexOf_example str_includes_char slice0_def example_info_def)
  have eval: "fetchBaseProfile example_info Map.empty new_ProfilesCache (Some ''lpar1.zosmf'') =
     Inr (Some (getProfileLoaded ''lpar1'' ''base'' (Some Map.empty)), new_ProfilesCache)"
    by (simp add: fetchBaseProfile_def gpi ebind_def base_profile_for_def base sec parent
        opt_includes_def str_includes_char)
       (simp add: example_info_def)
  from fetchBaseProfile_result
    [of Map.empty new_ProfilesCache new_ProfilesCache "''lpar1.zosmf''" example_info] gpi base sec
  obtain l where l: "fetchBaseProfile example_info Map.empty new_ProfilesCache (Some ''lpar1.zosmf'')
      = Inr (Some l, new_ProfilesCache)" "is_ancestor (name l) ''lpar1.zosmf''"
      "if \<exists>p. is_ancestor p ''lpar1.zosmf'' \<and> secure_token example_info p
       then secure_token example_info (name l) \<and>
            (\<forall>p. is_ancestor p ''lpar1.zosmf'' \<and> secure_token example_info p
               \<longrightarrow> length p \<le> length (name l))
       else \<forall>p. is_ancestor p ''lpar1.zosmf'' \<longrightarrow> length p \<le> length (name l)"
    by auto
  from l(1) eval have "l = getProfileLoaded ''lpar1'' ''base'' (Some Map.empty)" by simp
  then have nm: "name l = ''lpar1''" by (simp add: getProfileLoaded_def)
  have "is_ancestor ''lpar1'' ''lpar1.zosmf''" using l(2) nm by simp
  moreover have s: "secure_token example_info ''lpar1''"
    by (simp add: secure_token_def example_info_def)
  ultimately show ?thesis using eval by simp
qed


lemma find_Some_split:
  "(find P xs = Some a) = (\<exists>pre post. xs = pre @ a # post \<and> P a \<and> (\<forall>b\<in>set pre. \<not> P b))"
proof (induction xs)
  case Nil
  then show ?case by simp
next
  case (Cons x xs)
  show ?case
  proof (cases "P x")
    case True
    have "(\<exists>pre post. x # xs = pre @ a # post \<and> P a \<and> (\<forall>b\<in>set pre. \<not> P b)) = (x = a)"
    proof
      assume "\<exists>pre post. x # xs = pre @ a # post \<and> P a \<and> (\<forall>b\<in>set pre. \<not> P b)"
      then obtain pre post where h: "x # xs = pre @ a # post" "\<forall>b\<in>set pre. \<not> P b" by blast
      with True show "x = a" by (cases pre) auto
    next
      assume "x = a"
      with True have "x # xs = [] @ a # xs \<and> P a \<and> (\<forall>b\<in>set []. \<not> P b)" by simp
      then show "\<exists>pre post. x # xs = pre @ a # post \<and> P a \<and> (\<forall>b\<in>set pre. \<not> P b)" by blast
    qed
    with True show ?thesis by simp
  next
    case False
    have "(\<exists>pre post. x # xs = pre @ a # post \<and> P a \<and> (\<forall>b\<in>set pre. \<not> P b)) =
          (\<exists>pre post. xs = pre @ a # post \<and> P a \<and> (\<forall>b\<in>set pre. \<not> P b))"
    proof
      assume "\<exists>pre post. x # xs = pre @ a # post \<and> P a \<and> (\<forall>b\<in>set pre. \<not> P b)"
      then obtain pre post where h: "x # xs = pre @ a # post" "P a" "\<forall>b\<in>set pre. \<not> P b" by blast
      with False obtain pre' where "pre = x # pre'" by (cases pre) auto
      with h show "\<exists>pre post. xs = pre @ a # post \<and> P a \<and> (\<forall>b\<in>set pre. \<not> P b)" by auto
    next
      assume "\<exists>pre post. xs = pre @ a # post \<and> P a \<and> (\<forall>b\<in>set pre. \<not> P b)"
      then obtain pre post where h: "xs = pre @ a # post" "P a" "\<forall>b\<in>set pre. \<not> P b" by blast
      with False have "x # xs = (x # pre) @ a # post \<and> P a \<and> (\<forall>b\<in>set (x # pre). \<not> P b)" by simp
      then show "\<exists>pre post. x # xs = pre @ a # post \<and> P a \<and> (\<forall>b\<in>set pre. \<not> P b)" by blast
    qed
    with False Cons.IH show ?thesis by simp
  qed
qed

lemma loadNamedProfile_find:
  "loadNamedProfile c nm ty optional =
     (case find (profile_matches c nm ty) (allProfiles c) of
        Some a \<Rightarrow> Inr (Some a)
      | None \<Rightarrow>
          if optional then Inr None
          else Inl (Error (''Zowe Explorer Profiles Cache error: Could not find profile named: ''
                             @ nm @ ''.'')))"
proof -
  have "(\<lambda>a. name (loaded c a) = nm \<and> (not_type ty \<or> Some (type (loaded c a)) = ty)) =
        profile_matches c nm ty"
    by (auto simp: profile_matches_def not_type_def fun_eq_iff split: option.splits)
  then show ?thesis by (simp add: loadNamedProfile_def split: option.splits)
qed

text \<open>
  C6, as amended. \<open>loadNamedProfile\<close> returns the first profile of \<open>allProfiles\<close> whose
  name is the given one and, when a type is given and is not the empty string, whose
  type is the given one. When no profile matches it throws the error that names the
  profile if \<open>optional\<close> is false, and returns \<open>undefined\<close> if it is true.
\<close>

theorem loadNamedProfile_first_match:
  "(loadNamedProfile c nm ty optional = Inr (Some a)) =
     (\<exists>pre post. allProfiles c = pre @ a # post \<and> profile_matches c nm ty a \<and>
        (\<forall>b\<in>set pre. \<not> profile_matches c nm ty b)) \<and>
   ((\<forall>b\<in>set (allProfiles c). \<not> profile_matches c nm ty b) \<longrightarrow>
      loadNamedProfile c nm ty optional =
        (if optional then Inr None
         else Inl (Error (''Zowe Explorer Profiles Cache error: Could not find profile named: ''
                            @ nm @ ''.''))))"
proof -
  have 1: "(loadNamedProfile c nm ty optional = Inr (Some a)) =
           (find (profile_matches c nm ty) (allProfiles c) = Some a)"
    by (auto simp: loadNamedProfile_find split: option.splits)
  have 2: "(\<forall>b\<in>set (allProfiles c). \<not> profile_matches c nm ty b) \<Longrightarrow>
           find (profile_matches c nm ty) (allProfiles c) = None"
    by (simp add: find_None_iff)
  show ?thesis
    using 1 2 find_Some_split [of "profile_matches c nm ty" "allProfiles c" a]
    by (auto simp: loadNamedProfile_find)
qed

text \<open>
  C6 as stated fails for the empty string as type: no profile of the example cache has
  the name and the type \<open>""\<close>, and a profile is returned all the same.
\<close>

theorem loadNamedProfile_empty_type_counterexample:
  "find (claimed_match example_loaded ''lpar1.zosmf'' (Some [])) (allProfiles example_loaded) = None \<and>
   loadNamedProfile example_loaded ''lpar1.zosmf'' (Some []) False = Inr (Some 0)"
  by (simp add: claimed_match_def loadNamedProfile_def example_loaded_def loaded_def
      getProfileLoaded_def not_type_def)

theorem loadNamedProfile_witness:
  "loadNamedProfile example_loaded ''global_base'' (Some ''base'') False = Inr (Some 1) \<and>
   loadNamedProfile example_loaded ''lpar2.zosmf'' None True = Inr None \<and>
   loadNamedProfile example_loaded ''lpar2.zosmf'' None False =
     Inl (Error ''Zowe Explorer Profiles Cache error: Could not find profile named: lpar2.zosmf.'')"
proof -
  have m: "profile_matches example_loaded ''global_base'' (Some ''base'') 1"
     "\<not> profile_matches example_loaded ''global_base'' (Some ''base'') 0"
     "\<forall>b\<in>set (allProfiles example_loaded). \<not> profile_matches example_loaded ''lpar2.zosmf'' None b"
    by (simp_all add: profile_matches_def example_loaded_def loaded_def getProfileLoaded_def)
  have "allProfiles example_loaded = [0] @ 1 # []" by (simp add: example_loaded_def)
  with m have "\<exists>pre post. allProfiles example_loaded = pre @ 1 # post \<and>
      profile_matches example_loaded ''global_base'' (Some ''base'') 1 \<and>
      (\<forall>b\<in>set pre. \<not> profile_matches example_loaded ''global_base'' (Some ''base'') b)"
    by (intro exI [of _ "[0]"] exI [of _ "[]"]) simp
  then have 1: "loadNamedProfile example_loaded ''global_base'' (Some ''base'') False = Inr (Some 1)"
    using loadNamedProfile_first_match
      [of example_loaded "''global_base''" "Some ''base''" False 1]
    by blast
  from m(3) have 2: "loadNamedProfile example_loaded ''lpar2.zosmf'' None True = Inr None"
    using loadNamedProfile_first_match [of example_loaded "''lpar2.zosmf''" None True]
    by simp
  from m(3) have 3: "loadNamedProfile example_loaded ''lpar2.zosmf'' None False =
     Inl (Error ''Zowe Explorer Profiles Cache error: Could not find profile named: lpar2.zosmf.'')"
    using loadNamedProfile_first_match [of example_loaded "''lpar2.zosmf''" None False]
    by simp
  from 1 2 3 show ?thesis by simp
qed

lemma refresh_profile_unfold:
  "refresh_profile info ty prof c =
     (case find (\<lambda>a. name (loaded (fresh_state info ty prof c) a) = profName prof \<and>
                      type (loaded (fresh_state info ty prof c) a) = profType prof)
             (allProfiles c) of
        Some e \<Rightarrow>
          (e, (fresh_state info ty prof c)
                \<lparr> loaded_store := (loaded_store (fresh_state info ty prof c))
                     [e := getProfileLoaded (profName prof) (profType prof)
                             (length (profile_store c))] \<rparr>)
      | None \<Rightarrow> (length (loaded_store c), fresh_state info ty prof c))"
  by (auto simp: refresh_profile_def fresh_state_def alloc_profile_def alloc_loaded_def Let_def
      loaded_def split: option.splits)

lemma find_SomeD: "find P xs = Some x \<Longrightarrow> P x \<and> x \<in> set xs"
  by (induction xs) (auto split: if_splits)

lemma refresh_profile_frame:
  assumes "refresh_profile info ty prof c = (a, c')"
  shows "allProfiles c' = allProfiles c" "profilesByType c' = profilesByType c"
    "allTypes c' = allTypes c" "allExternalTypes c' = allExternalTypes c"
    "profilesForValidation c' = profilesForValidation c"
    "profile_store c' = profile_store c @ [getMergedAttrs info (Some prof)]"
    "length (loaded_store c') = Suc (length (loaded_store c))"
    "defaultProfileByType c' =
       (if isDefaultProfile prof
        then AList.update ty (length (loaded_store c)) (defaultProfileByType c)
        else defaultProfileByType c)"
  using assms
  by (auto simp: refresh_profile_unfold fresh_state_def split: option.splits)

lemma refresh_profile_result:
  assumes "refresh_profile info ty prof c = (a, c')"
    and "\<forall>b\<in>set (allProfiles c). b < length (loaded_store c)"
  shows "a < length (loaded_store c')"
    "loaded c' a = getProfileLoaded (profName prof) (profType prof) (length (profile_store c))"
    "loaded c' (length (loaded_store c)) =
       getProfileLoaded (profName prof) (profType prof) (length (profile_store c))"
    "a \<noteq> length (loaded_store c) \<Longrightarrow> a \<in> set (allProfiles c)"
  using assms
  by (auto simp: refresh_profile_unfold fresh_state_def loaded_def nth_append
      split: option.splits dest!: find_SomeD)

lemma refresh_profile_other:
  assumes step: "refresh_profile info ty prof c = (a, c')"
    and b: "b < length (loaded_store c)"
  shows "loaded c' b = loaded c b \<or>
         (b = a \<and> name (loaded c b) = profName prof \<and> type (loaded c b) = profType prof)"
proof (cases "find (\<lambda>a. name (loaded (fresh_state info ty prof c) a) = profName prof \<and>
                      type (loaded (fresh_state info ty prof c) a) = profType prof)
             (allProfiles c)")
  case None
  with step have "c' = fresh_state info ty prof c" by (simp add: refresh_profile_unfold)
  with b show ?thesis by (simp add: fresh_state_def loaded_def nth_append)
next
  case (Some e)
  with step have a: "a = e"
    and c': "c' = (fresh_state info ty prof c)
                \<lparr> loaded_store := (loaded_store (fresh_state info ty prof c))
                     [e := getProfileLoaded (profName prof) (profType prof)
                             (length (profile_store c))] \<rparr>"
    by (auto simp: refresh_profile_unfold)
  from Some have m: "name (loaded (fresh_state info ty prof c) e) = profName prof"
    "type (loaded (fresh_state info ty prof c) e) = profType prof"
    by (auto dest: find_SomeD)
  show ?thesis
  proof (cases "b = e")
    case True
    with b m have "name (loaded c b) = profName prof \<and> type (loaded c b) = profType prof"
      by (simp add: fresh_state_def loaded_def nth_append)
    with True a show ?thesis by simp
  next
    case False
    with b c' show ?thesis by (simp add: fresh_state_def loaded_def nth_append)
  qed
qed

lemma refresh_profile_stored:
  assumes "refresh_profile info ty prof c = (a, c')" and "stored c"
  shows "stored c'"
  using assms refresh_profile_frame(1,7) [OF assms(1)] by (auto simp: stored_def)

lemma refresh_profile_in_store:
  assumes step: "refresh_profile info ty prof c = (a, c')" and st: "stored c"
    and b: "in_store c b"
  shows "in_store c' b"
proof -
  from b have bl: "b < length (loaded_store c)" by (simp add: in_store_def)
  from st have ran: "\<forall>b\<in>set (allProfiles c). b < length (loaded_store c)" by (simp add: stored_def)
  have len: "length (loaded_store c') = Suc (length (loaded_store c))"
    "profile_store c' = profile_store c @ [getMergedAttrs info (Some prof)]"
    using refresh_profile_frame [OF step] by simp_all
  from refresh_profile_other [OF step bl] show ?thesis
  proof
    assume "loaded c' b = loaded c b"
    with b len show ?thesis by (simp add: in_store_def)
  next
    assume "b = a \<and> name (loaded c b) = profName prof \<and> type (loaded c b) = profType prof"
    then have "loaded c' b =
        getProfileLoaded (profName prof) (profType prof) (length (profile_store c))"
      using refresh_profile_result(2) [OF step ran] by simp
    with bl len show ?thesis by (simp add: in_store_def getProfileLoaded_def)
  qed
qed

lemma refresh_profile_name_type:
  assumes step: "refresh_profile info ty prof c = (a, c')" and bl: "b < length (loaded_store c)"
  shows "name (loaded c' b) = name (loaded c b) \<and> type (loaded c' b) = type (loaded c b)"
proof -
  from refresh_profile_other [OF step bl] show ?thesis
  proof
    assume "loaded c' b = loaded c b"
    then show ?thesis by simp
  next
    assume h: "b = a \<and> name (loaded c b) = profName prof \<and> type (loaded c b) = profType prof"
    from step h have "find (\<lambda>a. name (loaded (fresh_state info ty prof c) a) = profName prof \<and>
                      type (loaded (fresh_state info ty prof c) a) = profType prof)
             (allProfiles c) \<noteq> None"
      using bl by (auto simp: refresh_profile_unfold split: option.splits)
    with step h bl have "loaded c' b =
        getProfileLoaded (profName prof) (profType prof) (length (profile_store c))"
      by (auto simp: refresh_profile_unfold fresh_state_def loaded_def split: option.splits)
    with h show ?thesis by (auto simp: getProfileLoaded_def)
  qed
qed

lemma refresh_profile_new_in_store:
  assumes step: "refresh_profile info ty prof c = (a, c')" and st: "stored c"
  shows "in_store c' a" "name (loaded c' a) = profName prof" "type (loaded c' a) = profType prof"
proof -
  from st have ran: "\<forall>b\<in>set (allProfiles c). b < length (loaded_store c)" by (simp add: stored_def)
  from refresh_profile_result(1,2) [OF step ran] refresh_profile_frame(6) [OF step]
  show "in_store c' a" "name (loaded c' a) = profName prof" "type (loaded c' a) = profType prof"
    by (simp_all add: in_store_def getProfileLoaded_def)
qed

lemma refresh_profiles_inv:
  assumes "refresh_profiles info ty profs c = (as, c')" and "stored c"
  shows "stored c' \<and> allProfiles c' = allProfiles c \<and> profilesByType c' = profilesByType c \<and>
         allTypes c' = allTypes c \<and> allExternalTypes c' = allExternalTypes c \<and>
         profilesForValidation c' = profilesForValidation c \<and>
         length (loaded_store c) \<le> length (loaded_store c') \<and>
         length as = length profs \<and>
         (\<forall>b. in_store c b \<longrightarrow> in_store c' b) \<and>
         (\<forall>b<length (loaded_store c).
            name (loaded c' b) = name (loaded c b) \<and> type (loaded c' b) = type (loaded c b)) \<and>
         (\<forall>a\<in>set as. in_store c' a \<and> type (loaded c' a) \<in> profType ` set profs)"
  using assms
proof (induction profs arbitrary: c as c')
  case Nil
  then show ?case by auto
next
  case (Cons prof rest)
  obtain a c1 where step: "refresh_profile info ty prof c = (a, c1)"
    by (cases "refresh_profile info ty prof c")
  obtain as' c2 where rec: "refresh_profiles info ty rest c1 = (as', c2)"
    by (cases "refresh_profiles info ty rest c1")
  from Cons.prems(1) step rec have res: "as = a # as'" "c' = c2" by simp_all
  have st1: "stored c1" using refresh_profile_stored [OF step Cons.prems(2)] .
  note fr = refresh_profile_frame [OF step]
  note IH = Cons.IH [OF rec st1]
  have new: "in_store c1 a" "type (loaded c1 a) = profType prof"
    using refresh_profile_new_in_store [OF step Cons.prems(2)] by simp_all
  from new(1) have al: "a < length (loaded_store c1)" by (simp add: in_store_def)
  have a_fin: "in_store c2 a \<and> type (loaded c2 a) = profType prof"
    using IH new al by auto
  have pres: "\<forall>b<length (loaded_store c).
            name (loaded c2 b) = name (loaded c b) \<and> type (loaded c2 b) = type (loaded c b)"
  proof (intro allI impI)
    fix b assume bl: "b < length (loaded_store c)"
    then have "b < length (loaded_store c1)" using fr(7) by simp
    with IH have "name (loaded c2 b) = name (loaded c1 b) \<and> type (loaded c2 b) = type (loaded c1 b)"
      by blast
    with refresh_profile_name_type [OF step bl]
    show "name (loaded c2 b) = name (loaded c b) \<and> type (loaded c2 b) = type (loaded c b)"
      by simp
  qed
  have ins: "\<forall>b. in_store c b \<longrightarrow> in_store c2 b"
    using refresh_profile_in_store [OF step Cons.prems(2)] IH by blast
  from IH fr res a_fin pres ins show ?case by auto
qed

lemma refresh_profiles_default:
  assumes "refresh_profiles info ty profs c = (as, c')"
  shows "(\<forall>k. k \<noteq> ty \<longrightarrow>
            map_of (defaultProfileByType c') k = map_of (defaultProfileByType c) k) \<and>
         ((\<forall>p\<in>set profs. \<not> isDefaultProfile p) \<longrightarrow>
            defaultProfileByType c' = defaultProfileByType c) \<and>
         profile_store c' = profile_store c @ map (\<lambda>p. getMergedAttrs info (Some p)) profs"
  using assms
proof (induction profs arbitrary: c as c')
  case Nil
  then show ?case by auto
next
  case (Cons prof rest)
  obtain a c1 where step: "refresh_profile info ty prof c = (a, c1)"
    by (cases "refresh_profile info ty prof c")
  obtain as' c2 where rec: "refresh_profiles info ty rest c1 = (as', c2)"
    by (cases "refresh_profiles info ty rest c1")
  from Cons.prems(1) step rec have res: "c' = c2" by simp
  note fr = refresh_profile_frame [OF step]
  from Cons.IH [OF rec] fr(6,8) res show ?case
    by (auto simp: update_conv')
qed

lemma refresh_profile_untouched:
  assumes step: "refresh_profile info ty prof c = (a, c')" and st: "stored c"
    and b: "b < length (loaded_store c)" "b \<notin> set (allProfiles c)"
  shows "loaded c' b = loaded c b"
proof -
  from st have ran: "\<forall>b\<in>set (allProfiles c). b < length (loaded_store c)" by (simp add: stored_def)
  from refresh_profile_other [OF step b(1)] refresh_profile_result(4) [OF step ran] b
  show ?thesis by auto
qed

lemma refresh_profiles_untouched:
  assumes "refresh_profiles info ty profs c = (as, c')" and "stored c"
    and "b < length (loaded_store c)" "b \<notin> set (allProfiles c)"
  shows "loaded c' b = loaded c b"
  using assms
proof (induction profs arbitrary: c as c')
  case Nil
  then show ?case by auto
next
  case (Cons prof rest)
  obtain a c1 where step: "refresh_profile info ty prof c = (a, c1)"
    by (cases "refresh_profile info ty prof c")
  obtain as' c2 where rec: "refresh_profiles info ty rest c1 = (as', c2)"
    by (cases "refresh_profiles info ty rest c1")
  from Cons.prems(1) step rec have res: "c' = c2" by simp
  note fr = refresh_profile_frame [OF step]
  have st1: "stored c1" using refresh_profile_stored [OF step Cons.prems(2)] .
  have "loaded c2 b = loaded c1 b"
    using Cons.IH [OF rec st1] Cons.prems(3,4) fr(1,7) by simp
  with refresh_profile_untouched [OF step Cons.prems(2,3,4)] res show ?case by simp
qed

lemma refresh_profiles_last_default:
  assumes "refresh_profiles info ty profs c = (as, c')" and "stored c"
    and "filter isDefaultProfile profs = ds @ [p]"
  shows "\<exists>la. default_for info c' ty p la"
  using assms
proof (induction profs arbitrary: c as c' ds)
  case Nil
  then show ?case by simp
next
  case (Cons prof rest)
  obtain a c1 where step: "refresh_profile info ty prof c = (a, c1)"
    by (cases "refresh_profile info ty prof c")
  obtain as' c2 where rec: "refresh_profiles info ty rest c1 = (as', c2)"
    by (cases "refresh_profiles info ty rest c1")
  from Cons.prems(1) step rec have res: "c' = c2" by simp
  note fr = refresh_profile_frame [OF step]
  have st1: "stored c1" using refresh_profile_stored [OF step Cons.prems(2)] .
  from Cons.prems(2) have ran: "\<forall>b\<in>set (allProfiles c). b < length (loaded_store c)"
    by (simp add: stored_def)
  show ?case
  proof (cases "filter isDefaultProfile rest = []")
    case True
    with Cons.prems(3) have p: "prof = p" "isDefaultProfile prof"
      by (auto split: if_splits)
    let ?la = "length (loaded_store c)"
    from True have nodef: "\<forall>q\<in>set rest. \<not> isDefaultProfile q" by (simp add: filter_empty_conv)
    have d1: "map_of (defaultProfileByType c1) ty = Some ?la"
      using fr(8) p by (simp add: update_conv')
    have l1: "loaded c1 ?la =
        getProfileLoaded (profName p) (profType p) (length (profile_store c))"
      using refresh_profile_result(3) [OF step ran] p by simp
    have notin: "?la \<notin> set (allProfiles c1)" using ran fr(1) by auto
    have lt: "?la < length (loaded_store c1)" using fr(7) by simp
    have d2: "defaultProfileByType c2 = defaultProfileByType c1"
      using refresh_profiles_default [OF rec] nodef by blast
    have l2: "loaded c2 ?la = loaded c1 ?la"
      using refresh_profiles_untouched [OF rec st1 lt notin] .
    have ps: "profile_store c2 =
        (profile_store c @ [getMergedAttrs info (Some p)]) @
          map (\<lambda>p. getMergedAttrs info (Some p)) rest"
      using refresh_profiles_default [OF rec] fr(6) p by simp
    have inv: "allProfiles c2 = allProfiles c1" "length (loaded_store c1) \<le> length (loaded_store c2)"
      using refresh_profiles_inv [OF rec st1] by simp_all
    have "default_for info c2 ty p ?la"
      unfolding default_for_def props_of_def l2 l1
      using d1 d2 notin lt inv ps
      by (simp add: getProfileLoaded_def nth_append)
    with res show ?thesis by blast
  next
    case False
    then obtain ds' q where dq: "filter isDefaultProfile rest = ds' @ [q]"
      by (metis rev_exhaust)
    with Cons.prems(3) have "q = p" by (auto split: if_splits)
    with dq Cons.IH [OF rec st1] res show ?thesis by blast
  qed
qed

lemma refresh_types_step:
  "refresh_types info (ty # rest) c acc =
     (if filter has_osLoc (getAllProfiles info ty) = []
      then refresh_types info rest c acc
      else refresh_types info rest
             ((snd (refresh_profiles info ty (filter has_osLoc (getAllProfiles info ty)) c))
                \<lparr> profilesByType :=
                    AList.update ty
                      (fst (refresh_profiles info ty (filter has_osLoc (getAllProfiles info ty)) c))
                      (profilesByType
                         (snd (refresh_profiles info ty
                                 (filter has_osLoc (getAllProfiles info ty)) c))) \<rparr>)
             (acc @ fst (refresh_profiles info ty (filter has_osLoc (getAllProfiles info ty)) c)))"
  by (simp add: Let_def split_beta)

lemma refresh_types_frame:
  assumes "refresh_types info types c acc = (all, c')" and "stored c"
  shows "stored c' \<and> allProfiles c' = allProfiles c \<and>
         allTypes c' = allTypes c \<and> allExternalTypes c' = allExternalTypes c \<and>
         profilesForValidation c' = profilesForValidation c \<and>
         length (loaded_store c) \<le> length (loaded_store c') \<and>
         (\<forall>k. k \<notin> set types \<longrightarrow>
            map_of (profilesByType c') k = map_of (profilesByType c) k \<and>
            map_of (defaultProfileByType c') k = map_of (defaultProfileByType c) k) \<and>
         (dom (map_of (defaultProfileByType c)) \<subseteq> dom (map_of (profilesByType c)) \<longrightarrow>
            dom (map_of (defaultProfileByType c')) \<subseteq> dom (map_of (profilesByType c'))) \<and>
         (\<forall>b. b < length (loaded_store c) \<and> b \<notin> set (allProfiles c)
            \<longrightarrow> loaded c' b = loaded c b) \<and>
         (\<exists>ext. profile_store c' = profile_store c @ ext)"
  using assms
proof (induction types arbitrary: c acc all c')
  case Nil
  then show ?case by auto
next
  case (Cons ty rest)
  let ?profs = "filter has_osLoc (getAllProfiles info ty)"
  show ?case
  proof (cases "?profs = []")
    case True
    with Cons.prems(1) have "refresh_types info rest c acc = (all, c')"
      by (simp add: refresh_types_step del: refresh_types.simps)
    from Cons.IH [OF this Cons.prems(2)] show ?thesis by auto
  next
    case False
    obtain tmp c1 where run: "refresh_profiles info ty ?profs c = (tmp, c1)"
      by (cases "refresh_profiles info ty ?profs c")
    let ?c2 = "c1 \<lparr> profilesByType := AList.update ty tmp (profilesByType c1) \<rparr>"
    from Cons.prems(1) False run have rec: "refresh_types info rest ?c2 (acc @ tmp) = (all, c')"
      by (simp add: refresh_types_step del: refresh_types.simps)
    note inv = refresh_profiles_inv [OF run Cons.prems(2)]
    note dflt = refresh_profiles_default [OF run]
    from inv have st2: "stored ?c2" by (simp add: stored_def)
    note IH = Cons.IH [OF rec st2]
    have maps: "\<forall>k. k \<notin> set (ty # rest) \<longrightarrow>
            map_of (profilesByType c') k = map_of (profilesByType c) k \<and>
            map_of (defaultProfileByType c') k = map_of (defaultProfileByType c) k"
      using IH inv dflt by (auto simp: update_conv')
    have dom2: "dom (map_of (defaultProfileByType c)) \<subseteq> dom (map_of (profilesByType c)) \<Longrightarrow>
                dom (map_of (defaultProfileByType ?c2)) \<subseteq> dom (map_of (profilesByType ?c2))"
    proof
      fix k assume sub: "dom (map_of (defaultProfileByType c)) \<subseteq> dom (map_of (profilesByType c))"
        and k: "k \<in> dom (map_of (defaultProfileByType ?c2))"
      show "k \<in> dom (map_of (profilesByType ?c2))"
      proof (cases "k = ty")
        case True
        then show ?thesis by (simp add: update_conv')
      next
        case False
        with k dflt have "k \<in> dom (map_of (defaultProfileByType c))" by (auto simp: dom_def)
        with sub inv False show ?thesis by (auto simp: update_conv' dom_def)
      qed
    qed
    have unt: "\<forall>b. b < length (loaded_store c) \<and> b \<notin> set (allProfiles c)
            \<longrightarrow> loaded c' b = loaded c b"
    proof (intro allI impI)
      fix b assume b: "b < length (loaded_store c) \<and> b \<notin> set (allProfiles c)"
      then have "loaded c1 b = loaded c b"
        using refresh_profiles_untouched [OF run Cons.prems(2)] by blast
      moreover have "loaded ?c2 b = loaded c1 b" by (simp add: loaded_def)
      moreover from b inv have "b < length (loaded_store ?c2) \<and> b \<notin> set (allProfiles ?c2)"
        by auto
      with IH have "loaded c' b = loaded ?c2 b" by blast
      ultimately show "loaded c' b = loaded c b" by simp
    qed
    from IH obtain ext where "profile_store c' = profile_store ?c2 @ ext" by blast
    with dflt have ext: "\<exists>ext. profile_store c' = profile_store c @ ext" by simp
    from IH inv maps dom2 unt ext show ?thesis by auto
  qed
qed


lemma default_for_kept:
  assumes d: "default_for info c ty p la"
    and maps: "map_of (defaultProfileByType c') ty = map_of (defaultProfileByType c) ty"
    and all: "allProfiles c' = allProfiles c"
    and len: "length (loaded_store c) \<le> length (loaded_store c')"
    and unt: "\<forall>b. b < length (loaded_store c) \<and> b \<notin> set (allProfiles c)
            \<longrightarrow> loaded c' b = loaded c b"
    and ext: "\<exists>ext. profile_store c' = profile_store c @ ext"
  shows "default_for info c' ty p la"
proof -
  from d unt have l: "loaded c' la = loaded c la" by (simp add: default_for_def)
  from ext obtain e where "profile_store c' = profile_store c @ e" by blast
  with d l maps all len show ?thesis
    by (auto simp: default_for_def props_of_def nth_append)
qed

lemma refresh_types_default:
  assumes "refresh_types info types c acc = (all, c')" and "stored c"
    and "distinct types" and "ty \<in> set types"
    and "filter isDefaultProfile (filter has_osLoc (getAllProfiles info ty)) = ds @ [p]"
  shows "\<exists>la. default_for info c' ty p la"
  using assms
proof (induction types arbitrary: c acc all c')
  case Nil
  then show ?case by simp
next
  case (Cons t rest)
  let ?profs = "filter has_osLoc (getAllProfiles info t)"
  show ?case
  proof (cases "?profs = []")
    case True
    with Cons.prems(5) have "t \<noteq> ty" by (auto simp del: filter_filter)
    with Cons.prems(3,4) have "distinct rest" "ty \<in> set rest" by auto
    moreover from True Cons.prems(1) have "refresh_types info rest c acc = (all, c')"
      by (simp add: refresh_types_step del: refresh_types.simps)
    ultimately show ?thesis using Cons.IH Cons.prems(2,5) by blast
  next
    case False
    obtain tmp c1 where run: "refresh_profiles info t ?profs c = (tmp, c1)"
      by (cases "refresh_profiles info t ?profs c")
    let ?c2 = "c1 \<lparr> profilesByType := AList.update t tmp (profilesByType c1) \<rparr>"
    from Cons.prems(1) False run have rec: "refresh_types info rest ?c2 (acc @ tmp) = (all, c')"
      by (simp add: refresh_types_step del: refresh_types.simps)
    note inv = refresh_profiles_inv [OF run Cons.prems(2)]
    from inv have st2: "stored ?c2" by (simp add: stored_def)
    show ?thesis
    proof (cases "t = ty")
      case True
      with Cons.prems(5) run Cons.prems(2) obtain la where "default_for info c1 ty p la"
        using refresh_profiles_last_default by blast
      then have d2: "default_for info ?c2 ty p la"
        by (simp add: default_for_def loaded_def props_of_def)
      from True Cons.prems(3) have "ty \<notin> set rest" by simp
      with refresh_types_frame [OF rec st2] have "default_for info c' ty p la"
        by (intro default_for_kept [OF d2]) auto
      then show ?thesis by blast
    next
      case False
      with Cons.prems(3,4) have "distinct rest" "ty \<in> set rest" by auto
      with Cons.IH [OF rec st2] Cons.prems(5) show ?thesis by blast
    qed
  qed
qed

lemma opt_startsWith_True:
  "(opt_startsWith v p = Inr (JBool True)) = (\<exists>s. v = JStr s \<and> prefix p s)"
  by (cases v) (auto simp: startsWith_prefix)

lemma opt_startsWith_truthy:
  "opt_startsWith v p = Inr r \<Longrightarrow> truthy r \<Longrightarrow> r = JBool True"
  by (cases v) auto

lemma shouldRemove_true_iff:
  "(shouldRemoveTokenFromProfile apiml prof base = Inr (JBool True)) =
     token_conditions apiml (opt_props prof) (opt_props base)"
proof (cases "opt_props prof")
  case None
  then show ?thesis
    by (cases prof)
       (auto simp: shouldRemoveTokenFromProfile_def token_conditions_def opt_props_def
          opt_profile_opt_def Let_def)
next
  case (Some p)
  then obtain l where l: "prof = Some l" "profile l = Some p"
    by (cases prof) (auto simp: opt_props_def)
  show ?thesis
  proof (cases "opt_props base")
    case None
    with Some show ?thesis
      by (cases base)
         (auto simp: shouldRemoveTokenFromProfile_def token_conditions_def opt_props_def
            opt_profile_opt_def Let_def)
  next
    case (Some b)
    then obtain lb where lb: "base = Some lb" "profile lb = Some b"
      by (cases base) (auto simp: opt_props_def)
    show ?thesis
      unfolding l lb
      by (auto simp: shouldRemoveTokenFromProfile_def token_conditions_def opt_props_def
          opt_profile_opt_def opt_profile_def differs_or_has_credentials_def ebind_def Let_def
          l lb opt_startsWith_True)
  qed
qed

lemma ebind_Inr: "(ebind m f = Inr r) = (\<exists>v. m = Inr v \<and> f v = Inr r)"
  by (cases m) (auto simp: ebind_def)

lemma shouldRemove_truthy:
  assumes "shouldRemoveTokenFromProfile apiml prof base = Inr r" and "truthy r"
  shows "r = JBool True"
  using assms
  by (auto simp: shouldRemoveTokenFromProfile_def Let_def ebind_Inr
      split: if_splits dest: opt_startsWith_truthy)

lemma token_cleared_refl: "token_cleared p p"
  by (simp add: token_cleared_def)

lemma token_cleared_trans: "token_cleared p q \<Longrightarrow> token_cleared q r \<Longrightarrow> token_cleared p r"
  by (auto simp: token_cleared_def clear_token_def)

lemma env_related_refl: "env_related p p"
  by (simp add: env_related_def)

lemma env_related_trans: "env_related p q \<Longrightarrow> env_related q r \<Longrightarrow> env_related p r"
  by (auto simp: env_related_def)

lemma clear_token_props:
  "get_prop (clear_token p) ''tokenType'' = JUndefined"
  "get_prop (clear_token p) ''tokenValue'' = JUndefined"
  "get_prop (clear_token p) ''host'' = get_prop p ''host''"
  "get_prop (clear_token p) ''port'' = get_prop p ''port''"
  by (simp_all add: clear_token_def get_prop_def)

lemma token_conditions_cleared:
  assumes "token_cleared p p'" and "rel_option token_cleared b b'"
    and "token_conditions apiml (Some p') b'"
  shows "token_conditions apiml (Some p) b \<and> p' = p"
proof -
  from assms(3) obtain bb' where b': "b' = Some bb'"
    by (cases b') (auto simp: token_conditions_def)
  with assms(2) obtain bb where b: "b = Some bb" "token_cleared bb bb'"
    by (cases b) auto
  from assms(3) b' have "get_prop p' ''tokenType'' \<noteq> JUndefined"
    by (auto simp: token_conditions_def)
  with assms(1) have pp: "p' = p" by (auto simp: token_cleared_def clear_token_props)
  from b(2) have "get_prop bb' ''host'' = get_prop bb ''host''"
    "get_prop bb' ''port'' = get_prop bb ''port''"
    by (auto simp: token_cleared_def clear_token_props)
  with assms(3) b b' pp show ?thesis by (simp add: token_conditions_def)
qed


lemma set_props_frame:
  "loaded_store (set_props a p c) = loaded_store c"
  "allProfiles (set_props a p c) = allProfiles c"
  "allTypes (set_props a p c) = allTypes c"
  "allExternalTypes (set_props a p c) = allExternalTypes c"
  "profilesByType (set_props a p c) = profilesByType c"
  "defaultProfileByType (set_props a p c) = defaultProfileByType c"
  "profilesForValidation (set_props a p c) = profilesForValidation c"
  "length (profile_store (set_props a p c)) = length (profile_store c)"
  "loaded (set_props a p c) = loaded c"
  by (simp_all add: set_props_def loaded_def fun_eq_iff)

lemma set_props_nth:
  "profile_store (set_props a p c) ! i =
     (if i = profile (loaded c a) \<and> i < length (profile_store c) then p
      else profile_store c ! i)"
proof (cases "i = profile (loaded c a)")
  case True
  then show ?thesis
    by (cases "i < length (profile_store c)")
       (simp_all add: set_props_def list_update_beyond not_less)
next
  case False
  then show ?thesis by (simp add: set_props_def)
qed

lemma same_but_props_refl: "(\<And>p. R p p) \<Longrightarrow> same_but_props R c c"
  by (simp add: same_but_props_def)

lemma same_but_props_trans:
  assumes "\<And>p q r. R p q \<Longrightarrow> R q r \<Longrightarrow> R p r"
    and "same_but_props R c c1" and "same_but_props R c1 c2"
  shows "same_but_props R c c2"
  using assms(2,3) unfolding same_but_props_def
  by (auto intro: assms(1))

lemma same_but_props_set:
  assumes "\<And>p. R p p" and "R (props_of c a) p"
  shows "same_but_props R c (set_props a p c)"
  using assms
  by (auto simp: same_but_props_def set_props_frame set_props_nth props_of_def)

lemma same_but_props_views:
  assumes "same_but_props R c c'"
  shows "loaded c' = loaded c" "in_store c' = in_store c"
    "R (props_of c a) (props_of c' a)" "rel_option R (base_props c) (base_props c')"
  using assms
  by (auto simp: same_but_props_def loaded_def in_store_def props_of_def base_props_def
      fun_eq_iff option.rel_map intro!: option.rel_refl_strong)

lemma opt_props_deref:
  "opt_props (Some (deref c a)) = Some (props_of c a)"
  "opt_props (map_option (deref c) x) = map_option (props_of c) x"
  by (cases x; simp add: opt_props_def deref_def)+

lemma check_single:
  assumes "checkMergingConfigSingleProfile info a c = Inr c'"
  shows "same_but_props token_cleared c c'"
    and "in_store c a \<Longrightarrow>
         \<not> token_conditions (TOKEN_TYPE_APIML info) (Some (props_of c' a)) (base_props c')"
proof -
  from assms obtain v where
    v: "shouldRemoveTokenFromProfile (TOKEN_TYPE_APIML info) (Some (deref c a))
          (map_option (deref c) (map_of (defaultProfileByType c) ''base'')) = Inr v"
    and c': "c' = (if truthy v then set_props a (clear_token (props_of c a)) c else c)"
    by (auto simp: checkMergingConfigSingleProfile_def Let_def ebind_Inr split: if_splits)
  show "same_but_props token_cleared c c'"
    using c'
    by (auto intro!: same_but_props_set same_but_props_refl
        simp: token_cleared_def)
  assume ins: "in_store c a"
  show "\<not> token_conditions (TOKEN_TYPE_APIML info) (Some (props_of c' a)) (base_props c')"
  proof (cases "truthy v")
    case True
    with c' ins have "props_of c' a = clear_token (props_of c a)"
      by (simp add: props_of_def set_props_frame set_props_nth in_store_def)
    then show ?thesis by (simp add: token_conditions_def clear_token_props split: option.splits)
  next
    case False
    then have "v \<noteq> JBool True" by auto
    with v have "\<not> token_conditions (TOKEN_TYPE_APIML info) (Some (props_of c a)) (base_props c)"
      using shouldRemove_true_iff
        [of "TOKEN_TYPE_APIML info" "Some (deref c a)"
            "map_option (deref c) (map_of (defaultProfileByType c) ''base'')"]
      by (simp add: opt_props_deref base_props_def)
    with False c' show ?thesis by simp
  qed
qed

lemma cleared_keeps_unremovable:
  assumes "same_but_props token_cleared c c'"
    and "\<not> token_conditions apiml (Some (props_of c a)) (base_props c)"
  shows "\<not> token_conditions apiml (Some (props_of c' a)) (base_props c')"
  using assms token_conditions_cleared same_but_props_views(3,4) [OF assms(1)]
  by blast

lemma check_profiles_inv:
  assumes "check_profiles info as c = Inr c'"
  shows "same_but_props token_cleared c c' \<and>
         (\<forall>a\<in>set as. in_store c a \<longrightarrow>
            \<not> token_conditions (TOKEN_TYPE_APIML info) (Some (props_of c' a)) (base_props c'))"
  using assms
proof (induction as arbitrary: c)
  case Nil
  then show ?case by (simp add: same_but_props_refl token_cleared_refl)
next
  case (Cons a as)
  from Cons.prems obtain c1 where
    s1: "checkMergingConfigSingleProfile info a c = Inr c1"
    and rest: "check_profiles info as c1 = Inr c'"
    by (auto simp: ebind_Inr)
  note one = check_single [OF s1]
  note IH = Cons.IH [OF rest]
  from IH have r: "same_but_props token_cleared c1 c'" by simp
  have tr: "same_but_props token_cleared c c'"
    using same_but_props_trans [OF token_cleared_trans one(1) r] .
  have "in_store c a \<longrightarrow>
      \<not> token_conditions (TOKEN_TYPE_APIML info) (Some (props_of c' a)) (base_props c')"
    using one(2) cleared_keeps_unremovable [OF r] by blast
  moreover have "in_store c1 = in_store c" using same_but_props_views(2) [OF one(1)] .
  ultimately show ?case using IH tr by auto
qed

lemma check_groups_inv:
  assumes "check_groups info groups c = Inr c'"
  shows "same_but_props token_cleared c c' \<and>
         (\<forall>g\<in>set groups. \<forall>a\<in>set g. in_store c a \<longrightarrow>
            \<not> token_conditions (TOKEN_TYPE_APIML info) (Some (props_of c' a)) (base_props c'))"
  using assms
proof (induction groups arbitrary: c)
  case Nil
  then show ?case by (simp add: same_but_props_refl token_cleared_refl)
next
  case (Cons g groups)
  from Cons.prems obtain c1 where
    s1: "check_profiles info g c = Inr c1"
    and rest: "check_groups info groups c1 = Inr c'"
    by (auto simp: ebind_Inr)
  note one = check_profiles_inv [OF s1]
  note IH = Cons.IH [OF rest]
  from IH have r: "same_but_props token_cleared c1 c'" by simp
  from one have o: "same_but_props token_cleared c c1" by simp
  have tr: "same_but_props token_cleared c c'"
    using same_but_props_trans [OF token_cleared_trans o r] .
  have "\<forall>a\<in>set g. in_store c a \<longrightarrow>
      \<not> token_conditions (TOKEN_TYPE_APIML info) (Some (props_of c' a)) (base_props c')"
    using one cleared_keeps_unremovable [OF r] by blast
  moreover have "in_store c1 = in_store c" using same_but_props_views(2) [OF o] .
  ultimately show ?case using IH tr by auto
qed

lemma opt_startsWith_Inr_True:
  "opt_startsWith v p = Inr r \<Longrightarrow> truthy r \<Longrightarrow> \<exists>s. v = JStr s \<and> startsWith s p"
  by (cases v) auto

lemma resolve_env_Assign:
  assumes "resolve_env env v = Inr (Assign val)"
  shows "truthy v \<and> truthy val"
proof -
  from assms obtain r where r: "opt_startsWith v ''$'' = Inr r" "truthy r"
    by (auto simp: resolve_env_def ebind_Inr split: if_splits)
  then obtain s where s: "v = JStr s" "startsWith s ''$''"
    using opt_startsWith_Inr_True by blast
  then have "s \<noteq> []" by (cases s) auto
  with assms s r show ?thesis
    by (auto simp: resolve_env_def ebind_def split: option.splits if_splits)
qed

lemma update_from_env_related:
  assumes "update_from_env env p = Inr p'"
  shows "env_related p p'"
proof -
  from assms obtain step where
    st: "resolve_env env (get_prop p ''user'') = Inr step"
    by (auto simp: update_from_env_def ebind_Inr)
  show ?thesis
  proof (cases step)
    case Pass
    with assms st obtain step2 where
      s2: "resolve_env env (get_prop p ''password'') = Inr step2"
      and p': "p' = (case step2 of Assign val \<Rightarrow> p(''password'' \<mapsto> val) | _ \<Rightarrow> p)"
      by (auto simp: update_from_env_def ebind_def Let_def split: sum.splits env_step.splits)
    show ?thesis
    proof (cases step2)
      case (Assign val)
      with s2 p' resolve_env_Assign [of env "get_prop p ''password''" val] show ?thesis
        by (auto simp: env_related_def get_prop_def)
    qed (use p' in \<open>simp_all add: env_related_refl\<close>)
  next
    case Continue
    with assms st show ?thesis
      by (simp add: update_from_env_def ebind_def env_related_refl)
  next
    case (Assign u)
    let ?p1 = "p(''user'' \<mapsto> u)"
    from Assign st resolve_env_Assign [of env "get_prop p ''user''" u]
    have e1: "env_related p ?p1" by (auto simp: env_related_def get_prop_def)
    from Assign assms st obtain step2 where
      s2: "resolve_env env (get_prop ?p1 ''password'') = Inr step2"
      and p': "p' = (case step2 of Assign val \<Rightarrow> ?p1(''password'' \<mapsto> val) | _ \<Rightarrow> ?p1)"
      by (auto simp: update_from_env_def ebind_def Let_def split: sum.splits env_step.splits)
    have "env_related ?p1 p'"
    proof (cases step2)
      case (Assign val)
      with s2 p' resolve_env_Assign [of env "get_prop ?p1 ''password''" val] show ?thesis
        by (auto simp: env_related_def get_prop_def)
    qed (use p' in \<open>simp_all add: env_related_refl\<close>)
    with e1 show ?thesis by (rule env_related_trans)
  qed
qed

lemma same_env_trans:
  "same_but_props env_related c c1 \<Longrightarrow> same_but_props env_related c1 c2
     \<Longrightarrow> same_but_props env_related c c2"
  unfolding same_but_props_def by (auto intro: env_related_trans)

lemma env_update_all_inv:
  assumes "env_update_all env as c = Inr c'"
  shows "same_but_props env_related c c'"
  using assms
proof (induction as arbitrary: c)
  case Nil
  then show ?case by (simp add: same_but_props_refl env_related_refl)
next
  case (Cons a as)
  from Cons.prems obtain p where
    p: "update_from_env env (props_of c a) = Inr p"
    and rest: "env_update_all env as (set_props a p c) = Inr c'"
    by (auto split: sum.splits)
  have "same_but_props env_related c (set_props a p c)"
    using update_from_env_related [OF p]
    by (intro same_but_props_set) (simp_all add: env_related_refl)
  with Cons.IH [OF rest] show ?case
    using same_env_trans by blast
qed


lemma set_add_distinct: "distinct xs \<Longrightarrow> distinct (set_add x xs)"
  by (simp add: set_add_def)

lemma foldl_set_add_distinct:
  "distinct acc \<Longrightarrow> distinct (foldl (\<lambda>s x. set_add x s) acc xs)"
  by (induction xs arbitrary: acc) (simp_all add: set_add_distinct)

lemma new_Set_distinct: "distinct (new_Set xs)"
  by (simp add: new_Set_def foldl_set_add_distinct)

lemma foldl_delete_type:
  "loaded_store (foldl delete_type c ks) = loaded_store c \<and>
   profile_store (foldl delete_type c ks) = profile_store c \<and>
   allProfiles (foldl delete_type c ks) = allProfiles c \<and>
   allTypes (foldl delete_type c ks) = allTypes c \<and>
   allExternalTypes (foldl delete_type c ks) = allExternalTypes c \<and>
   profilesForValidation (foldl delete_type c ks) = profilesForValidation c \<and>
   map_of (profilesByType (foldl delete_type c ks)) k =
     (if k \<in> set ks then None else map_of (profilesByType c) k) \<and>
   map_of (defaultProfileByType (foldl delete_type c ks)) k =
     (if k \<in> set ks then None else map_of (defaultProfileByType c) k)"
  by (induction ks arbitrary: c) (auto simp: delete_type_def delete_conv')

lemma old_types_iff:
  "(k \<in> set (old_types c)) =
     (k \<in> dom (map_of (profilesByType c)) \<and>
      \<not> (\<exists>a\<in>set (allProfiles c). type (loaded c a) = k))"
  by (auto simp: old_types_def list_ex_iff dom_map_of_conv_image_fst)

lemma refresh_types_names:
  assumes "refresh_types info types c acc = (all, c')" and "stored c"
  shows "set acc \<subseteq> set all \<and>
         (\<forall>b<length (loaded_store c).
            name (loaded c' b) = name (loaded c b) \<and> type (loaded c' b) = type (loaded c b))"
  using assms
proof (induction types arbitrary: c acc all c')
  case Nil
  then show ?case by auto
next
  case (Cons ty rest)
  let ?profs = "filter has_osLoc (getAllProfiles info ty)"
  show ?case
  proof (cases "?profs = []")
    case True
    with Cons.prems(1) have "refresh_types info rest c acc = (all, c')"
      by (simp add: refresh_types_step del: refresh_types.simps)
    from Cons.IH [OF this Cons.prems(2)] show ?thesis .
  next
    case False
    obtain tmp c1 where run: "refresh_profiles info ty ?profs c = (tmp, c1)"
      by (cases "refresh_profiles info ty ?profs c")
    let ?c2 = "c1 \<lparr> profilesByType := AList.update ty tmp (profilesByType c1) \<rparr>"
    from Cons.prems(1) False run have rec: "refresh_types info rest ?c2 (acc @ tmp) = (all, c')"
      by (simp add: refresh_types_step del: refresh_types.simps)
    note inv = refresh_profiles_inv [OF run Cons.prems(2)]
    from inv have st2: "stored ?c2" by (simp add: stored_def)
    note IH = Cons.IH [OF rec st2]
    have ld: "loaded ?c2 = loaded c1" by (simp add: loaded_def fun_eq_iff)
    have "\<forall>b<length (loaded_store c).
            name (loaded c' b) = name (loaded c b) \<and> type (loaded c' b) = type (loaded c b)"
    proof (intro allI impI)
      fix b assume b: "b < length (loaded_store c)"
      with inv have "b < length (loaded_store ?c2)" by simp
      with IH have "name (loaded c' b) = name (loaded c1 b) \<and> type (loaded c' b) = type (loaded c1 b)"
        by (simp add: ld)
      with inv b show "name (loaded c' b) = name (loaded c b) \<and> type (loaded c' b) = type (loaded c b)"
        by simp
    qed
    with IH show ?thesis by auto
  qed
qed

lemma refresh_types_has_profile:
  assumes "refresh_types info types c acc = (all, c')" and "stored c"
    and "ty \<in> set types" and "filter has_osLoc (getAllProfiles info ty) \<noteq> []"
    and "answers_by_type info"
  shows "\<exists>a\<in>set all. type (loaded c' a) = ty"
  using assms
proof (induction types arbitrary: c acc all c')
  case Nil
  then show ?case by simp
next
  case (Cons t rest)
  let ?profs = "filter has_osLoc (getAllProfiles info t)"
  show ?case
  proof (cases "?profs = []")
    case True
    with Cons.prems(4) have "t \<noteq> ty" by auto
    with Cons.prems(3) have "ty \<in> set rest" by simp
    moreover from True Cons.prems(1) have "refresh_types info rest c acc = (all, c')"
      by (simp add: refresh_types_step del: refresh_types.simps)
    ultimately show ?thesis using Cons.IH Cons.prems(2,4,5) by blast
  next
    case False
    obtain tmp c1 where run: "refresh_profiles info t ?profs c = (tmp, c1)"
      by (cases "refresh_profiles info t ?profs c")
    let ?c2 = "c1 \<lparr> profilesByType := AList.update t tmp (profilesByType c1) \<rparr>"
    from Cons.prems(1) False run have rec: "refresh_types info rest ?c2 (acc @ tmp) = (all, c')"
      by (simp add: refresh_types_step del: refresh_types.simps)
    note inv = refresh_profiles_inv [OF run Cons.prems(2)]
    from inv have st2: "stored ?c2" by (simp add: stored_def)
    have ld: "loaded ?c2 = loaded c1" by (simp add: loaded_def fun_eq_iff)
    show ?thesis
    proof (cases "t = ty")
      case True
      from inv False have "tmp \<noteq> []" by auto
      then obtain a where a: "a \<in> set tmp" by (cases tmp) auto
      from Cons.prems(5) have "\<forall>p\<in>set ?profs. profType p = t"
        by (auto simp: answers_by_type_def)
      with inv a have "in_store c1 a" "type (loaded c1 a) = t" by auto
      then have al: "a < length (loaded_store ?c2)" and at: "type (loaded ?c2 a) = t"
        by (simp_all add: in_store_def ld)
      from refresh_types_names [OF rec st2] al at
      have "type (loaded c' a) = t" by metis
      moreover from refresh_types_names [OF rec st2] a have "a \<in> set all" by auto
      ultimately show ?thesis using True by blast
    next
      case F: False
      with Cons.prems(3) have "ty \<in> set rest" by simp
      with Cons.IH [OF rec st2] Cons.prems(4,5) show ?thesis by blast
    qed
  qed
qed


lemma example_types:
  "set_add ''base'' (set_add ''ssh'' (new_Set (getAllProfileTypes new_ProfilesCache [''zosmf''])))
     = [''zosmf'', ''ssh'', ''base'']"
  by (simp add: set_add_def new_Set_def getAllProfileTypes_def new_ProfilesCache_def)

lemma example_profiles:
  "filter has_osLoc (getAllProfiles example_info ''zosmf'') = [example_zosmf]"
  "filter has_osLoc (getAllProfiles example_info ''ssh'') = []"
  "filter has_osLoc (getAllProfiles example_info ''base'') = [example_base]"
  by (simp_all add: example_info_def example_zosmf_def example_base_def has_osLoc_def)

lemma example_refresh_load:
  "refresh_load example_info Map.empty (Some [''zosmf'']) new_ProfilesCache = Inr example_loaded"
  unfolding refresh_load_def getProfileInfo_def checkForEnvVarAndUpdate_def
  apply (simp add: new_ProfilesCache_def ebind_def)
  apply (fold new_ProfilesCache_def)
  apply (simp only: example_types Let_def)
  apply (simp add: refresh_types_step example_profiles del: refresh_types.simps)
  apply (simp add: refresh_profile_def alloc_profile_def alloc_loaded_def Let_def
      new_ProfilesCache_def example_zosmf_def example_base_def loaded_def
      getProfileLoaded_def update_conv' delete_old_types_def old_types_def example_loaded_def)
  done

lemma processed_types_distinct: "distinct (processed_types c reg)"
  by (simp add: processed_types_def set_add_distinct new_Set_distinct)

lemma getProfileInfo_same:
  "getProfileInfo env c = Inr c0 \<Longrightarrow> same_but_props env_related c c0"
  by (simp add: getProfileInfo_def checkForEnvVarAndUpdate_def env_update_all_inv)

lemma refresh_load_split:
  assumes "refresh_load info env reg c = Inr c3"
  obtains c0 allp c1 where "getProfileInfo env c = Inr c0"
    "refresh_types info (processed_types c reg) c0 [] = (allp, c1)"
    "c3 = delete_old_types (c1 \<lparr> allProfiles := allp, allTypes := processed_types c reg \<rparr>)"
proof -
  from assms obtain c0 where c0: "getProfileInfo env c = Inr c0"
    by (auto simp: refresh_load_def ebind_Inr)
  from getProfileInfo_same [OF c0] have ext: "allExternalTypes c0 = allExternalTypes c"
    by (simp add: same_but_props_def)
  then have pt: "processed_types c0 reg = processed_types c reg"
    by (simp add: processed_types_def getAllProfileTypes_def)
  obtain allp c1 where run: "refresh_types info (processed_types c reg) c0 [] = (allp, c1)"
    by (cases "refresh_types info (processed_types c reg) c0 []")
  from assms c0 run pt
  have "c3 = delete_old_types (c1 \<lparr> allProfiles := allp, allTypes := processed_types c reg \<rparr>)"
    by (simp add: refresh_load_def ebind_def processed_types_def Let_def)
  with c0 run that show thesis by blast
qed

lemma delete_old_types_views:
  "loaded (delete_old_types c) = loaded c" "props_of (delete_old_types c) = props_of c"
  "in_store (delete_old_types c) = in_store c"
  "allProfiles (delete_old_types c) = allProfiles c"
  "allTypes (delete_old_types c) = allTypes c"
  "profilesForValidation (delete_old_types c) = profilesForValidation c"
  "loaded_store (delete_old_types c) = loaded_store c"
  "profile_store (delete_old_types c) = profile_store c"
  using foldl_delete_type [of c "old_types c"]
  by (simp_all add: delete_old_types_def loaded_def props_of_def in_store_def fun_eq_iff)

lemma delete_old_types_maps:
  "map_of (profilesByType (delete_old_types c)) k =
     (if \<exists>a\<in>set (allProfiles c). type (loaded c a) = k then map_of (profilesByType c) k else None)"
  "map_of (defaultProfileByType (delete_old_types c)) k =
     (if k \<in> dom (map_of (profilesByType c)) \<and> \<not> (\<exists>a\<in>set (allProfiles c). type (loaded c a) = k)
      then None else map_of (defaultProfileByType c) k)"
  using foldl_delete_type [of c "old_types c" k] old_types_iff [of k c]
  by (auto simp: delete_old_types_def dom_def)



lemma refresh_split:
  assumes "refresh info env reg c = Inr c'"
  obtains c3 c4 c5 where "refresh_load info env reg c = Inr c3"
    "checkMergingConfigAllProfiles info c3 = Inr c4"
    "checkForEnvVarAndUpdate env c4 = Inr c5"
    "c' = c5 \<lparr> profilesForValidation := [] \<rparr>"
  using assms by (auto simp: refresh_def ebind_Inr)




lemma refresh_load_default:
  assumes load: "refresh_load info env reg c = Inr c3" and st: "stored c"
    and ab: "answers_by_type info"
    and ty: "ty \<in> set (processed_types c reg)"
    and p: "filter isDefaultProfile (filter has_osLoc (getAllProfiles info ty)) = ds @ [p]"
  shows "\<exists>la. map_of (defaultProfileByType c3) ty = Some la \<and>
              name (loaded c3 la) = profName p \<and> type (loaded c3 la) = profType p \<and>
              props_of c3 la = getMergedAttrs info (Some p)"
proof -
  from load obtain c0 allp c1 where
    c0: "getProfileInfo env c = Inr c0"
    and run: "refresh_types info (processed_types c reg) c0 [] = (allp, c1)"
    and c3: "c3 = delete_old_types (c1 \<lparr> allProfiles := allp, allTypes := processed_types c reg \<rparr>)"
    by (rule refresh_load_split)
  let ?c2 = "c1 \<lparr> allProfiles := allp, allTypes := processed_types c reg \<rparr>"
  from getProfileInfo_same [OF c0] st have st0: "stored c0"
    by (simp add: same_but_props_def stored_def)
  from refresh_types_default [OF run st0 processed_types_distinct ty p]
  obtain la where d: "default_for info c1 ty p la" by blast
  from p have ne: "filter has_osLoc (getAllProfiles info ty) \<noteq> []"
    by (auto simp del: filter_filter)
  from refresh_types_has_profile [OF run st0 ty ne ab]
  have has: "\<exists>a\<in>set allp. type (loaded c1 a) = ty" .
  have v2: "loaded ?c2 = loaded c1" "props_of ?c2 = props_of c1"
    by (simp_all add: loaded_def props_of_def fun_eq_iff)
  have "map_of (defaultProfileByType c3) ty = map_of (defaultProfileByType c1) ty"
    using c3 has delete_old_types_maps(2) [of ?c2 ty] v2 by simp
  moreover have "loaded c3 = loaded c1" "props_of c3 = props_of c1"
    using c3 v2 by (simp_all add: delete_old_types_views)
  ultimately show ?thesis using d by (auto simp: default_for_def)
qed





lemma example_props:
  "get_prop (getMergedAttrs example_info (Some example_zosmf)) ''host'' = JStr ''lpar1.example.com''"
  "get_prop (getMergedAttrs example_info (Some example_zosmf)) ''port'' = JNum 443"
  "get_prop (getMergedAttrs example_info (Some example_zosmf)) ''tokenType''
     = JStr ''apimlAuthenticationToken''"
  "get_prop (getMergedAttrs example_info (Some example_zosmf)) ''user'' = JUndefined"
  "get_prop (getMergedAttrs example_info (Some example_zosmf)) ''password'' = JUndefined"
  "get_prop (getMergedAttrs example_info (Some example_base)) ''host'' = JStr ''apiml.example.com''"
  "get_prop (getMergedAttrs example_info (Some example_base)) ''port'' = JNum 7554"
  "get_prop (getMergedAttrs example_info (Some example_base)) ''tokenType''
     = JStr ''apimlAuthenticationToken''"
  "get_prop (getMergedAttrs example_info (Some example_base)) ''user'' = JUndefined"
  "get_prop (getMergedAttrs example_info (Some example_base)) ''password'' = JUndefined"
  by (simp_all add: get_prop_def getMergedAttrs_def set_property_def example_info_def
      example_args_def example_zosmf_def example_base_def)

lemma example_loaded_views:
  "props_of example_loaded 0 = getMergedAttrs example_info (Some example_zosmf)"
  "props_of example_loaded (Suc 0) = getMergedAttrs example_info (Some example_base)"
  "base_props example_loaded = Some (getMergedAttrs example_info (Some example_base))"
  "TOKEN_TYPE_APIML example_info = ''apimlAuthenticationToken''"
  by (simp_all add: props_of_def loaded_def example_loaded_def getProfileLoaded_def
      base_props_def example_info_def)

lemma example_conditions:
  "token_conditions (TOKEN_TYPE_APIML example_info) (Some (props_of example_loaded 0))
     (base_props example_loaded)"
  "\<not> token_conditions (TOKEN_TYPE_APIML example_info) (Some (props_of example_loaded (Suc 0)))
     (base_props example_loaded)"
  by (simp_all add: example_loaded_views token_conditions_def example_props)

lemma clear_token_env:
  "get_prop (clear_token p) ''user'' = get_prop p ''user''"
  "get_prop (clear_token p) ''password'' = get_prop p ''password''"
  by (simp_all add: clear_token_def get_prop_def)

lemma update_from_env_none:
  "get_prop p ''user'' = JUndefined \<Longrightarrow> get_prop p ''password'' = JUndefined \<Longrightarrow>
   update_from_env env p = Inr p"
  by (simp add: update_from_env_def resolve_env_def ebind_def)

text \<open>A variable that is not set leaves the property as it is. A name that
  \<open>process.env\<close> inherits is no variable and still reads as a value: it is assigned, and
  the password is resolved after it.\<close>

lemma update_from_env_unset:
  "update_from_env Map.empty [''user'' \<mapsto> JStr ''$ZOWE_USER'', ''password'' \<mapsto> JStr ''$ZOWE_PASS'']
     = Inr [''user'' \<mapsto> JStr ''$ZOWE_USER'', ''password'' \<mapsto> JStr ''$ZOWE_PASS'']"
  by (simp add: update_from_env_def resolve_env_def process_env_def Object_prototype_def
      envVarName_def is_word_char_def get_prop_def ebind_def)

lemma update_from_env_inherited:
  "map_sum id (\<lambda>p. (get_prop p ''user'', get_prop p ''password''))
     (update_from_env [''ZOWE_PASS'' \<mapsto> ''secret'']
        [''user'' \<mapsto> JStr ''$constructor'', ''password'' \<mapsto> JStr ''$ZOWE_PASS'']) =
   Inr (JObject ''Object.prototype.constructor'', JStr ''secret'')"
  by (simp add: update_from_env_def resolve_env_def process_env_def Object_prototype_def
      envVarName_def is_word_char_def get_prop_def ebind_def)

lemma example_refresh:
  "refresh example_info Map.empty (Some [''zosmf'']) new_ProfilesCache = Inr example_refreshed"
proof -
  let ?c1 = "set_props 0 (clear_token (props_of example_loaded 0)) example_loaded"
  have base0: "map_option (deref example_loaded) (map_of (defaultProfileByType example_loaded) ''base'')
      = Some (deref example_loaded (Suc 0))"
    by (simp add: example_loaded_def)
  have "shouldRemoveTokenFromProfile (TOKEN_TYPE_APIML example_info)
          (Some (deref example_loaded 0)) (Some (deref example_loaded (Suc 0))) = Inr (JBool True)"
    using example_conditions(1)
    by (simp add: shouldRemove_true_iff opt_props_deref opt_props_def deref_def
        example_loaded_views)
  then have s0: "checkMergingConfigSingleProfile example_info 0 example_loaded = Inr ?c1"
    by (simp add: checkMergingConfigSingleProfile_def base0 ebind_def)
  have c1: "?c1 = example_refreshed"
    by (simp add: set_props_def example_refreshed_def example_loaded_views)
       (simp add: example_loaded_def loaded_def getProfileLoaded_def)
  have v1: "props_of example_refreshed 0 = clear_token (getMergedAttrs example_info (Some example_zosmf))"
    "props_of example_refreshed (Suc 0) = getMergedAttrs example_info (Some example_base)"
    "map_option (deref example_refreshed) (map_of (defaultProfileByType example_refreshed) ''base'')
      = Some (deref example_refreshed (Suc 0))"
    by (simp_all add: example_refreshed_def example_loaded_def props_of_def loaded_def
        getProfileLoaded_def)
  have "shouldRemoveTokenFromProfile (TOKEN_TYPE_APIML example_info)
          (Some (deref example_refreshed (Suc 0))) (Some (deref example_refreshed (Suc 0)))
        = Inr JUndefined"
    by (simp add: shouldRemoveTokenFromProfile_def differs_or_has_credentials_def
        opt_profile_opt_def opt_profile_def deref_def v1 example_props ebind_def)
  then have s1: "checkMergingConfigSingleProfile example_info (Suc 0) example_refreshed
      = Inr example_refreshed"
    by (simp add: checkMergingConfigSingleProfile_def v1 ebind_def)
  have chk: "checkMergingConfigAllProfiles example_info example_loaded = Inr example_refreshed"
    using s0 s1 c1
    by (simp add: checkMergingConfigAllProfiles_def example_loaded_def ebind_def)
  have id: "set_props a (props_of example_refreshed a) example_refreshed = example_refreshed" for a
    by (simp add: set_props_def props_of_def)
  have "update_from_env Map.empty (props_of example_refreshed 0) = Inr (props_of example_refreshed 0)"
    "update_from_env Map.empty (props_of example_refreshed (Suc 0))
       = Inr (props_of example_refreshed (Suc 0))"
    by (simp_all add: v1 update_from_env_none clear_token_env example_props)
  then have envu: "checkForEnvVarAndUpdate Map.empty example_refreshed = Inr example_refreshed"
    by (simp add: checkForEnvVarAndUpdate_def example_refreshed_def example_loaded_def)
       (simp add: id [unfolded example_refreshed_def example_loaded_def, simplified])
  show ?thesis
    by (simp add: refresh_def example_refresh_load chk envu ebind_def)
       (simp add: example_refreshed_def example_loaded_def)
qed


lemma example_hyps:
  "stored new_ProfilesCache" "answers_by_type example_info"
  "dom (map_of (defaultProfileByType new_ProfilesCache))
     \<subseteq> dom (map_of (profilesByType new_ProfilesCache))"
  by (simp_all add: stored_def new_ProfilesCache_def answers_by_type_def example_info_def)


























text \<open>
  C4, as amended. After a \<open>refresh\<close> that returns (from a cache whose profiles are in
  the store, with a library that answers by type), for each type the call goes through:
  the last profile with a non-empty \<open>osLoc\<close> that the library marks as the default is
  what \<open>defaultProfileByType\<close> holds for the type once the profiles are loaded, with
  the merged properties; \<open>getDefaultProfile\<close> of the type then returns that profile,
  its properties being the merged ones after the token check and the update from the
  environment. Without an argument \<open>getDefaultProfile\<close> reads the type \<open>zosmf\<close>.
\<close>

theorem refresh_sets_default:
  "(stored c \<and> answers_by_type info \<and> refresh info env reg c = Inr c' \<and>
    ty \<in> set (processed_types c reg) \<and>
    filter isDefaultProfile (filter has_osLoc (getAllProfiles info ty)) = ds @ [p] \<longrightarrow>
      (\<exists>la c3. refresh_load info env reg c = Inr c3 \<and>
         map_of (defaultProfileByType c3) ty = Some la \<and>
         props_of c3 la = getMergedAttrs info (Some p) \<and>
         getDefaultProfile c' (Some ty) = Some la \<and>
         name (loaded c' la) = profName p \<and> type (loaded c' la) = profType p \<and>
         (\<exists>q. token_cleared (getMergedAttrs info (Some p)) q \<and>
              env_related q (props_of c' la)))) \<and>
   getDefaultProfile c0 None = getDefaultProfile c0 (Some ''zosmf'')"
proof (intro conjI impI)
  assume h: "stored c \<and> answers_by_type info \<and> refresh info env reg c = Inr c' \<and>
    ty \<in> set (processed_types c reg) \<and>
    filter isDefaultProfile (filter has_osLoc (getAllProfiles info ty)) = ds @ [p]"
  then obtain c3 c4 c5 where load: "refresh_load info env reg c = Inr c3"
    and chk: "checkMergingConfigAllProfiles info c3 = Inr c4"
    and envu: "checkForEnvVarAndUpdate env c4 = Inr c5"
    and c': "c' = c5 \<lparr> profilesForValidation := [] \<rparr>"
    by (auto elim: refresh_split)
  from chk have s34: "same_but_props token_cleared c3 c4"
    using check_groups_inv [of info "map snd (profilesByType c3)" c3 c4]
    by (simp add: checkMergingConfigAllProfiles_def)
  from envu have s45: "same_but_props env_related c4 c5"
    by (simp add: checkForEnvVarAndUpdate_def env_update_all_inv)
  have pv: "props_of c' = props_of c5"
    using c' by (simp add: props_of_def loaded_def fun_eq_iff)
  have v: "loaded c' = loaded c3" "defaultProfileByType c' = defaultProfileByType c3"
    using c' s34 s45 by (simp_all add: same_but_props_def loaded_def fun_eq_iff)
  from h load obtain la where la: "map_of (defaultProfileByType c3) ty = Some la"
    "name (loaded c3 la) = profName p" "type (loaded c3 la) = profType p"
    "props_of c3 la = getMergedAttrs info (Some p)"
    using refresh_load_default [of info env reg c c3 ty ds p] by blast
  have "token_cleared (getMergedAttrs info (Some p)) (props_of c4 la)"
    using same_but_props_views(3) [OF s34, of la] la(4) by simp
  moreover have "env_related (props_of c4 la) (props_of c' la)"
    using same_but_props_views(3) [OF s45, of la] pv by simp
  ultimately have "\<exists>q. token_cleared (getMergedAttrs info (Some p)) q \<and>
              env_related q (props_of c' la)"
    by blast
  with load la v show "\<exists>la c3. refresh_load info env reg c = Inr c3 \<and>
         map_of (defaultProfileByType c3) ty = Some la \<and>
         props_of c3 la = getMergedAttrs info (Some p) \<and>
         getDefaultProfile c' (Some ty) = Some la \<and>
         name (loaded c' la) = profName p \<and> type (loaded c' la) = profType p \<and>
         (\<exists>q. token_cleared (getMergedAttrs info (Some p)) q \<and>
              env_related q (props_of c' la))"
    by (auto simp: getDefaultProfile_def)
next
  show "getDefaultProfile c0 None = getDefaultProfile c0 (Some ''zosmf'')"
    by (simp add: getDefaultProfile_def)
qed

theorem refresh_sets_default_witness:
  "stored new_ProfilesCache \<and> answers_by_type example_info \<and>
   refresh example_info Map.empty (Some [''zosmf'']) new_ProfilesCache = Inr example_refreshed \<and>
   ''zosmf'' \<in> set (processed_types new_ProfilesCache (Some [''zosmf''])) \<and>
   filter isDefaultProfile (filter has_osLoc (getAllProfiles example_info ''zosmf''))
     = [] @ [example_zosmf] \<and>
   getDefaultProfile example_refreshed (Some ''zosmf'') = Some 0 \<and>
   name (loaded example_refreshed 0) = ''lpar1.zosmf'' \<and>
   type (loaded example_refreshed 0) = ''zosmf''"
proof -
  have t: "''zosmf'' \<in> set (processed_types new_ProfilesCache (Some [''zosmf'']))"
    using example_types by (simp add: processed_types_def)
  have f: "filter isDefaultProfile (filter has_osLoc (getAllProfiles example_info ''zosmf''))
     = [] @ [example_zosmf]"
    by (simp add: example_profiles del: filter_filter) (simp add: example_zosmf_def)
  have d: "getDefaultProfile example_refreshed (Some ''zosmf'') = Some 0"
    by (simp add: getDefaultProfile_def example_refreshed_def example_loaded_def)
  from refresh_sets_default
    [of new_ProfilesCache example_info Map.empty "Some [''zosmf'']" example_refreshed
        "''zosmf''" "[]" example_zosmf]
    example_hyps(1,2) example_refresh t f
  obtain la where "getDefaultProfile example_refreshed (Some ''zosmf'') = Some la"
    "name (loaded example_refreshed la) = profName example_zosmf"
    "type (loaded example_refreshed la) = profType example_zosmf"
    by blast
  with d have "name (loaded example_refreshed 0) = ''lpar1.zosmf''"
    "type (loaded example_refreshed 0) = ''zosmf''"
    by (simp_all add: example_zosmf_def)
  with example_hyps(1,2) example_refresh t f d show ?thesis by simp
qed

lemma example_hidden_profiles:
  "filter has_osLoc (getAllProfiles example_info_hidden ty) = []"
  by (simp add: example_info_hidden_def example_hidden_def has_osLoc_def example_info_def)

text \<open>
  C4 as stated fails for a profile that the library marks as the default and that has
  no \<open>osLoc\<close>: \<open>refresh\<close> leaves it out, and the type has no default.
\<close>

theorem refresh_default_without_osLoc_counterexample:
  "example_hidden \<in> set (getAllProfiles example_info_hidden ''zosmf'') \<and>
   isDefaultProfile example_hidden \<and>
   refresh example_info_hidden Map.empty (Some [''zosmf'']) new_ProfilesCache =
     Inr (new_ProfilesCache \<lparr> allTypes := [''zosmf'', ''ssh'', ''base''] \<rparr>) \<and>
   getDefaultProfile (new_ProfilesCache \<lparr> allTypes := [''zosmf'', ''ssh'', ''base''] \<rparr>)
     (Some ''zosmf'') = None"
proof -
  have load: "refresh_load example_info_hidden Map.empty (Some [''zosmf'']) new_ProfilesCache
      = Inr (new_ProfilesCache \<lparr> allTypes := [''zosmf'', ''ssh'', ''base''] \<rparr>)"
    unfolding refresh_load_def getProfileInfo_def checkForEnvVarAndUpdate_def
    apply (simp add: new_ProfilesCache_def ebind_def)
    apply (fold new_ProfilesCache_def)
    apply (simp only: example_types Let_def)
    apply (simp add: refresh_types_step example_hidden_profiles del: refresh_types.simps)
    apply (simp add: new_ProfilesCache_def delete_old_types_def old_types_def)
    done
  have "refresh example_info_hidden Map.empty (Some [''zosmf'']) new_ProfilesCache =
     Inr (new_ProfilesCache \<lparr> allTypes := [''zosmf'', ''ssh'', ''base''] \<rparr>)"
    by (simp add: refresh_def load ebind_def)
       (simp add: checkMergingConfigAllProfiles_def checkForEnvVarAndUpdate_def
          new_ProfilesCache_def)
  then show ?thesis
    by (simp add: example_info_hidden_def example_hidden_def example_info_def
        getDefaultProfile_def new_ProfilesCache_def)
qed

text \<open>
  C10. \<open>checkIfChildPath\<close> is truthy exactly when the relative path from the parent to
  the child is non-empty, does not start with \<open>..\<close> and is not absolute. Whenever the
  relative path is empty the function returns the empty string itself; with a
  \<open>path.relative\<close> that maps equal paths to the empty path, as the runtime's does, a
  path is therefore never a child of itself.
\<close>

theorem checkIfChildPath_truthy_iff:
  "(truthy (checkIfChildPath relative isAbsolute parentPath childPath) =
      (relative parentPath childPath \<noteq> [] \<and>
       \<not> prefix ''..'' (relative parentPath childPath) \<and>
       \<not> isAbsolute (relative parentPath childPath))) \<and>
   (relative p p = [] \<longrightarrow>
      checkIfChildPath relative isAbsolute p p = JStr [] \<and>
      \<not> truthy (checkIfChildPath relative isAbsolute p p))"
  by (simp add: checkIfChildPath_def Let_def startsWith_prefix)

theorem checkIfChildPath_witness:
  "(\<lambda>a b. if a = b then [] else b) ''/u/home'' ''/u/home'' = [] \<and>
   checkIfChildPath (\<lambda>a b. if a = b then [] else b) (\<lambda>p. prefix ''/'' p) ''/u/home'' ''/u/home''
     = JStr [] \<and>
   \<not> truthy (checkIfChildPath (\<lambda>a b. if a = b then [] else b) (\<lambda>p. prefix ''/'' p)
     ''/u/home'' ''/u/home'')"
  using checkIfChildPath_truthy_iff
    [of "\<lambda>a b. if a = b then [] else b" "\<lambda>p. prefix ''/'' p" "''/u/home''" "''/u/home''"
        "''/u/home''"]
  by simp

end
